theory Spec2Isabelle
  imports Complex_Main
begin

section \<open>Data model of ConversationalBrowserAgent.py\<close>

text \<open>
  Python \<open>str\<close> values are modelled as \<open>string\<close> (byte sequences, UTF-8): the three
  emoji of the reply lines are their UTF-8 bytes, and \<open>str.lower\<close> maps the ASCII
  letters only.  Time stamps (\<open>datetime.now()\<close>) and logging are left out.
\<close>

datatype AgentState = IDLE | THINKING | ACTING | WAITING_FOR_INPUT | COMPLETED | ERROR

text \<open>What \<open>json.loads\<close> returns: \<open>None\<close>, \<open>bool\<close>, \<open>int\<close>, \<open>float\<close>, \<open>str\<close>, \<open>list\<close>,
  \<open>dict\<close> (an association list read with \<open>map_of\<close>).\<close>

datatype json =
    JNull
  | JBool bool
  | JInt int
  | JFloat real
  | JStr string
  | JArr "json list"
  | JObj "(string \<times> json) list"

text \<open>The exceptions that leave \<open>process_user_input\<close>.\<close>

datatype pyexn = KeyError string | TypeError | AttributeError | ValueError | RecursionError

text \<open>\<open>@dataclass BrowserAction\<close>: the field annotations are not enforced by Python, so a
  field holds whatever JSON value the payload carried.\<close>

record BrowserAction =
  action_type :: json
  target :: json
  action_text :: json
  description :: json
  delay :: real
  val :: json

text \<open>A history entry \<open>{"role": ..., "content": ...}\<close>.\<close>

record msg =
  role :: string
  content :: json

text \<open>\<open>@dataclass ConversationMessage\<close> (without \<open>timestamp\<close>; \<open>action\<close> is never set).\<close>

record ConversationMessage =
  cm_role :: string
  cm_content :: json
  cm_screenshot :: "string option"

text \<open>\<open>self.task_context\<close>: the two keys the program uses, each a dict of strings.\<close>

record task_context =
  email_credentials :: "(string \<times> string) list option"
  email_details :: "(string \<times> string) list option"

text \<open>The fields of \<open>ConversationalBrowserAgent\<close> and of its \<open>BrowserController\<close>
  (\<open>page_present\<close> is \<open>self.page is not None\<close>).\<close>

record agent =
  state :: AgentState
  conversation_history :: "msg list"
  task_ctx :: task_context
  page_present :: bool
  is_initialized :: bool
  current_frame :: "json option"

subsection \<open>The outside world\<close>

text \<open>The calls on the Playwright page that return nothing.\<close>

datatype bcall =
    Goto json
  | WaitForLoadState
  | Cookies
  | WaitForSelector json
  | Click json
  | Fill json json
  | ScrollIntoView json
  | EvaluateScroll
  | WaitForTimeout int
  | SelectOption json json
  | FrameLocator json
  | Reload int

text \<open>What a turn does to the outside, in order: a page call, the request posted to
  OpenRouter with its \<open>messages\<close>, a call of \<open>execute_action\<close> with what it returned,
  \<open>asyncio.sleep\<close>, and the page queries.\<close>

datatype event =
    BCall bcall
  | QuerySelector json
  | TextContent
  | Screenshot
  | Post "msg list"
  | Exec BrowserAction bool string
  | Sleep real

text \<open>The outcome of \<open>requests.post\<close> and of reading the reply in \<open>generate_response\<close>:
  the request raised, a status other than 200, status 200 whose body could not be read,
  status 200 with whatever value the body has as the message content (a string, or
  \<open>None\<close> for a \<open>null\<close>).\<close>

datatype http_outcome = PostRaised | HttpOther | Http200Unreadable | Http200 json

text \<open>The outcome of \<open>json.loads\<close> on a string: the value read, \<open>JSONDecodeError\<close>, or
  another exception (\<open>RecursionError\<close> on input nested too deep, \<open>ValueError\<close> on an
  integer with too many digits).\<close>

datatype loads_outcome = Loaded json | JSONDecodeError | LoadsRaised pyexn

text \<open>
  Everything the program calls and does not define, over a state \<open>'w\<close> of the outside
  world.  A page call returns \<open>Some e\<close> when it raises an exception with \<open>str(e) = e\<close>;
  \<open>Inl e\<close> likewise.  \<open>py_repr\<close> is \<open>str()\<close> of a value that is not a \<open>str\<close>;
  \<open>re_recipient\<close>, \<open>re_subject\<close> and \<open>re_body\<close> are the three \<open>re.search\<close> calls, giving
  \<open>group(1)\<close> of the match; \<open>screenshot_b64\<close> is \<open>page.screenshot\<close> followed by
  \<open>base64.b64encode(...).decode()\<close>; \<open>system_prompt\<close> is the literal of \<open>analyze_intent\<close>.
\<close>

record 'w env =
  system_prompt :: string
  http_post :: "msg list \<Rightarrow> 'w \<Rightarrow> http_outcome \<times> 'w"
  json_loads :: "string \<Rightarrow> loads_outcome"
  py_repr :: "json \<Rightarrow> string"
  re_recipient :: "string \<Rightarrow> string option"
  re_subject :: "string \<Rightarrow> string option"
  re_body :: "string \<Rightarrow> string option"
  page_call :: "bcall \<Rightarrow> 'w \<Rightarrow> string option \<times> 'w"
  query_selector :: "json \<Rightarrow> 'w \<Rightarrow> (string + bool) \<times> 'w"
  text_content :: "'w \<Rightarrow> (string + string option) \<times> 'w"
  screenshot_b64 :: "'w \<Rightarrow> (string + string) \<times> 'w"

subsection \<open>Python primitives\<close>

text \<open>\<open>bool(v)\<close>.\<close>

fun truthy :: "json \<Rightarrow> bool" where
  "truthy JNull = False"
| "truthy (JBool b) = b"
| "truthy (JInt n) = (n \<noteq> 0)"
| "truthy (JFloat r) = (r \<noteq> 0)"
| "truthy (JStr s) = (s \<noteq> [])"
| "truthy (JArr xs) = (xs \<noteq> [])"
| "truthy (JObj kvs) = (kvs \<noteq> [])"

text \<open>\<open>d.get(k)\<close>: \<open>AttributeError\<close> on a value that is not a dict.\<close>

fun py_get :: "json \<Rightarrow> string \<Rightarrow> pyexn + json" where
  "py_get (JObj kvs) k = Inr (case map_of kvs k of None \<Rightarrow> JNull | Some v \<Rightarrow> v)"
| "py_get _ k = Inl AttributeError"

text \<open>\<open>d[k]\<close> with a string key: \<open>KeyError\<close> on a dict without the key, \<open>TypeError\<close> on
  every other value.\<close>

fun py_index :: "json \<Rightarrow> string \<Rightarrow> pyexn + json" where
  "py_index (JObj kvs) k = (case map_of kvs k of None \<Rightarrow> Inl (KeyError k) | Some v \<Rightarrow> Inr v)"
| "py_index _ k = Inl TypeError"

text \<open>\<open>d.get(k, "")\<close> on a dict.\<close>

definition get_or_empty :: "(string \<times> json) list \<Rightarrow> string \<Rightarrow> json" where
  "get_or_empty kvs k = (case map_of kvs k of None \<Rightarrow> JStr [] | Some v \<Rightarrow> v)"

text \<open>\<open>d.get(k, "")\<close> on a dict of strings.\<close>

definition sget :: "(string \<times> string) list \<Rightarrow> string \<Rightarrow> string" where
  "sget kvs k = (case map_of kvs k of None \<Rightarrow> [] | Some v \<Rightarrow> v)"

text \<open>\<open>str(v)\<close>, as an f-string formats a field.\<close>

definition py_str :: "'w env \<Rightarrow> json \<Rightarrow> string" where
  "py_str env v = (case v of JStr s \<Rightarrow> s | _ \<Rightarrow> py_repr env v)"

text \<open>The characters of a string: each code point with its UTF-8 bytes, a byte
  \<open>10xxxxxx\<close> continuing the character before it.\<close>

definition is_continuation :: "char \<Rightarrow> bool" where
  "is_continuation c = (128 \<le> (of_char c :: nat) \<and> (of_char c :: nat) < 192)"

fun add_byte :: "char \<Rightarrow> string list \<Rightarrow> string list" where
  "add_byte c [] = [[c]]"
| "add_byte c (g # gs) =
     (if g \<noteq> [] \<and> is_continuation (hd g) then (c # g) # gs else [c] # g # gs)"

definition code_points :: "string \<Rightarrow> string list" where
  "code_points s = foldr add_byte s []"

text \<open>\<open>x += s\<close> for a string \<open>s\<close>: concatenation on a \<open>str\<close>, extension by the characters
  of \<open>s\<close> on a \<open>list\<close>, \<open>TypeError\<close> otherwise.\<close>

fun py_iadd :: "json \<Rightarrow> string \<Rightarrow> pyexn + json" where
  "py_iadd (JStr s) t = Inr (JStr (s @ t))"
| "py_iadd (JArr xs) t = Inr (JArr (xs @ map JStr (code_points t)))"
| "py_iadd _ t = Inl TypeError"

text \<open>\<open>str.lower\<close> on the ASCII letters.\<close>

definition lower_char :: "char \<Rightarrow> char" where
  "lower_char c =
     (let n = (of_char c :: nat) in if 65 \<le> n \<and> n \<le> 90 then char_of (n + 32) else c)"

definition lower :: "string \<Rightarrow> string" where
  "lower s = map lower_char s"

fun starts_with :: "string \<Rightarrow> string \<Rightarrow> bool" where
  "starts_with [] s = True"
| "starts_with (p # ps) [] = False"
| "starts_with (p # ps) (c # cs) = (p = c \<and> starts_with ps cs)"

text \<open>\<open>p in s\<close> on strings.\<close>

fun py_in :: "string \<Rightarrow> string \<Rightarrow> bool" where
  "py_in p [] = (p = [])"
| "py_in p (c # cs) = (starts_with p (c # cs) \<or> py_in p cs)"

text \<open>\<open>xs[-5:]\<close>.\<close>

definition last5 :: "'a list \<Rightarrow> 'a list" where
  "last5 xs = drop (length xs - 5) xs"

text \<open>\<open>"\n".join(xs)\<close>.\<close>

fun join_nl :: "string list \<Rightarrow> string" where
  "join_nl [] = []"
| "join_nl [x] = x"
| "join_nl (x # y # ys) = x @ [CHR 0x0A] @ join_nl (y # ys)"

section \<open>OpenRouterClient\<close>

text \<open>\<open>generate_response\<close> (lines 65-85): the content on status 200, one of two fixed
  sentences otherwise; nothing is raised.\<close>

definition generate_response :: "'w env \<Rightarrow> msg list \<Rightarrow> 'w \<Rightarrow> json \<times> 'w \<times> event list" where
  "generate_response env messages x =
     (case http_post env messages x of
        (Http200 c, x') \<Rightarrow> (c, x', [Post messages])
      | (HttpOther, x') \<Rightarrow>
          (JStr ''I apologize, but I'm having trouble processing your request right now.'', x',
           [Post messages])
      | (_, x') \<Rightarrow>
          (JStr ''I encountered an error while processing your request.'', x',
           [Post messages]))"

text \<open>The dict returned when \<open>json.loads\<close> raises \<open>JSONDecodeError\<close> (lines 174-179).\<close>

definition fallback_plan :: json where
  "fallback_plan = JObj
     [(''intent'', JStr ''unclear request''),
      (''actions'', JArr []),
      (''requires_info'', JArr [JStr ''Please clarify your request with more details.'']),
      (''response'',
       JStr ''I'm sorry, I didn't understand your request. Could you provide more details?'')]"

text \<open>The \<open>messages\<close> of lines 156-163.\<close>

definition build_messages :: "'w env \<Rightarrow> string \<Rightarrow> msg list \<Rightarrow> msg list" where
  "build_messages env user_input history =
     [\<lparr>role = ''system'', content = JStr (system_prompt env)\<rparr>,
      \<lparr>role = ''user'', content = JStr (''User request: '' @ user_input)\<rparr>]
     @ last5 history"

text \<open>\<open>analyze_intent\<close> (lines 87-179).  Only \<open>JSONDecodeError\<close> is caught (line 172):
  every other exception of \<open>json.loads\<close> leaves the function, as does the \<open>TypeError\<close>
  it raises on a response that is not a string.\<close>

definition analyze_intent ::
  "'w env \<Rightarrow> string \<Rightarrow> msg list \<Rightarrow> 'w \<Rightarrow> (pyexn + json) \<times> 'w \<times> event list" where
  "analyze_intent env user_input history x =
     (case generate_response env (build_messages env user_input history) x of
        (response, x', evs) \<Rightarrow>
          (case response of
             JStr s \<Rightarrow>
               (case json_loads env s of
                  Loaded intent_data \<Rightarrow> (Inr intent_data, x', evs)
                | JSONDecodeError \<Rightarrow> (Inr fallback_plan, x', evs)
                | LoadsRaised e \<Rightarrow> (Inl e, x', evs))
           | _ \<Rightarrow> (Inl TypeError, x', evs)))"

section \<open>BrowserController\<close>

definition call :: "'w env \<Rightarrow> bcall \<Rightarrow> 'w \<Rightarrow> string option \<times> 'w \<times> event list" where
  "call env c x = (case page_call env c x of (r, x') \<Rightarrow> (r, x', [BCall c]))"

text \<open>Awaiting page calls one after the other; the first that raises ends the sequence.\<close>

fun calls :: "'w env \<Rightarrow> bcall list \<Rightarrow> 'w \<Rightarrow> string option \<times> 'w \<times> event list" where
  "calls env [] x = (None, x, [])"
| "calls env (c # cs) x =
     (case call env c x of
        (Some e, x', ev) \<Rightarrow> (Some e, x', ev)
      | (None, x', ev) \<Rightarrow> (case calls env cs x' of (r, x'', ev') \<Rightarrow> (r, x'', ev @ ev')))"

declare calls.simps [simp del]

text \<open>\<open>take_screenshot\<close> (lines 244-255).\<close>

definition take_screenshot :: "'w env \<Rightarrow> agent \<Rightarrow> 'w \<Rightarrow> string \<times> 'w \<times> event list" where
  "take_screenshot env ag x =
     (if \<not> page_present ag then ([], x, [])
      else (case screenshot_b64 env x of
              (Inr s, x') \<Rightarrow> (s, x', [Screenshot])
            | (Inl e, x') \<Rightarrow> ([], x', [Screenshot])))"

text \<open>\<open>int(f)\<close> of a float.\<close>

definition py_int :: "real \<Rightarrow> int" where
  "py_int r = (if 0 \<le> r then \<lfloor>r\<rfloor> else \<lceil>r\<rceil>)"

definition quote :: string where
  "quote = [CHR 0x27]"

text \<open>The body of the \<open>try\<close> of \<open>execute_action\<close> (lines 263-313): \<open>Inl e\<close> when a page call
  raised \<open>e\<close>, else the pair returned.\<close>

definition execute_action_try ::
  "'w env \<Rightarrow> BrowserAction \<Rightarrow> agent \<Rightarrow> 'w \<Rightarrow> (string + bool \<times> string) \<times> agent \<times> 'w \<times> event list"
  where
  "execute_action_try env action ag x =
     (if action_type action = JStr ''navigate'' then
        (case calls env [Goto (target action), WaitForLoadState, Cookies] x of
           (Some e, x', ev) \<Rightarrow> (Inl e, ag, x', ev)
         | (None, x', ev) \<Rightarrow>
             (Inr (True, ''Navigated to '' @ py_str env (target action)), ag, x', ev))
      else if action_type action = JStr ''click'' then
        (case calls env [WaitForSelector (target action), Click (target action)] x of
           (Some e, x', ev) \<Rightarrow> (Inl e, ag, x', ev)
         | (None, x', ev) \<Rightarrow>
             (Inr (True, ''Clicked on '' @ py_str env (target action)), ag, x', ev))
      else if action_type action = JStr ''type'' then
        (case calls env
                [WaitForSelector (target action), Fill (target action) (action_text action)] x of
           (Some e, x', ev) \<Rightarrow> (Inl e, ag, x', ev)
         | (None, x', ev) \<Rightarrow>
             (Inr (True, ''Typed '' @ quote @ py_str env (action_text action) @ quote
                         @ '' into '' @ py_str env (target action)), ag, x', ev))
      else if action_type action = JStr ''scroll'' then
        (if truthy (target action) then
           (case calls env [ScrollIntoView (target action)] x of
              (Some e, x', ev) \<Rightarrow> (Inl e, ag, x', ev)
            | (None, x', ev) \<Rightarrow>
                (Inr (True, ''Scrolled to element '' @ py_str env (target action)), ag, x', ev))
         else
           (case calls env [EvaluateScroll] x of
              (Some e, x', ev) \<Rightarrow> (Inl e, ag, x', ev)
            | (None, x', ev) \<Rightarrow> (Inr (True, ''Scrolled to bottom of page''), ag, x', ev)))
      else if action_type action = JStr ''wait'' then
        (case calls env [WaitForTimeout (py_int (delay action * 1000))] x of
           (Some e, x', ev) \<Rightarrow> (Inl e, ag, x', ev)
         | (None, x', ev) \<Rightarrow>
             (Inr (True, ''Waited for '' @ py_repr env (JFloat (delay action)) @ '' seconds''),
              ag, x', ev))
      else if action_type action = JStr ''screenshot'' then
        (Inr (True, ''Screenshot taken''), ag, x, [])
      else if action_type action = JStr ''select'' then
        (case calls env
                [WaitForSelector (target action),
                 SelectOption (target action) (action_text action)] x of
           (Some e, x', ev) \<Rightarrow> (Inl e, ag, x', ev)
         | (None, x', ev) \<Rightarrow>
             (Inr (True, ''Selected option '' @ quote @ py_str env (action_text action) @ quote
                         @ '' in '' @ py_str env (target action)), ag, x', ev))
      else if action_type action = JStr ''extract'' then
        (case calls env [WaitForSelector (target action)] x of
           (Some e, x', ev) \<Rightarrow> (Inl e, ag, x', ev)
         | (None, x', ev) \<Rightarrow>
             (case query_selector env (target action) x' of
                (Inl e, x'') \<Rightarrow> (Inl e, ag, x'', ev @ [QuerySelector (target action)])
              | (Inr False, x'') \<Rightarrow>
                  (Inr (True, ''Extracted text: ''), ag, x'', ev @ [QuerySelector (target action)])
              | (Inr True, x'') \<Rightarrow>
                  (case text_content env x'' of
                     (Inl e, x3) \<Rightarrow>
                       (Inl e, ag, x3, ev @ [QuerySelector (target action), TextContent])
                   | (Inr t, x3) \<Rightarrow>
                       (Inr (True, ''Extracted text: ''
                                   @ (case t of None \<Rightarrow> ''None'' | Some s \<Rightarrow> s)),
                        ag, x3, ev @ [QuerySelector (target action), TextContent]))))
      else if action_type action = JStr ''switch_frame'' then
        (case calls env [FrameLocator (target action)] x of
           (Some e, x', ev) \<Rightarrow> (Inl e, ag, x', ev)
         | (None, x', ev) \<Rightarrow>
             (Inr (True, ''Switched to iframe '' @ py_str env (target action)),
              ag\<lparr>current_frame := Some (target action)\<rparr>, x', ev))
      else
        (Inr (False, ''Unknown action type: '' @ py_str env (action_type action)), ag, x, []))"

text \<open>\<open>execute_action\<close> without the log entry of its own return: the missing-page check
  (lines 259-260), the \<open>try\<close>, and the \<open>except\<close> with its reload (lines 315-321).\<close>

definition execute_action_run ::
  "'w env \<Rightarrow> BrowserAction \<Rightarrow> agent \<Rightarrow> 'w \<Rightarrow> (bool \<times> string) \<times> agent \<times> 'w \<times> event list" where
  "execute_action_run env action ag x =
     (if \<not> page_present ag then ((False, ''Browser not initialized''), ag, x, [])
      else
        (case execute_action_try env action ag x of
           (Inr r, ag', x', ev) \<Rightarrow> (r, ag', x', ev)
         | (Inl e, ag', x', ev) \<Rightarrow>
             (case call env (Reload 30000) x' of
                (None, x'', ev') \<Rightarrow>
                  ((False, ''Action failed: '' @ e @ ''. Page reloaded for retry.''),
                   ag', x'', ev @ ev')
              | (Some e', x'', ev') \<Rightarrow>
                  ((False, ''Action failed: '' @ e @ ''. Could not recover.''),
                   ag', x'', ev @ ev'))))"

text \<open>\<open>execute_action\<close> (lines 257-321); the last event records the call and its result.\<close>

definition execute_action ::
  "'w env \<Rightarrow> BrowserAction \<Rightarrow> agent \<Rightarrow> 'w \<Rightarrow> (bool \<times> string) \<times> agent \<times> 'w \<times> event list" where
  "execute_action env action ag x =
     (case execute_action_run env action ag x of
        ((success, result), ag', x', ev) \<Rightarrow>
          ((success, result), ag', x', ev @ [Exec action success result]))"

section \<open>ConversationalBrowserAgent\<close>

text \<open>\<open>self.task_context.get("email_credentials")\<close> as a condition: a missing key and an
  empty dict are both false.\<close>

definition has_credentials :: "task_context \<Rightarrow> bool" where
  "has_credentials tc = (case email_credentials tc of None \<Rightarrow> False | Some d \<Rightarrow> d \<noteq> [])"

definition mentions_send_email :: "string \<Rightarrow> bool" where
  "mentions_send_email user_input = py_in ''send email'' (lower user_input)"

text \<open>The constructor call of lines 428-434: \<open>delay\<close> is not passed, so the dataclass
  default \<open>1.0\<close> stands.\<close>

definition make_action :: "json \<Rightarrow> pyexn + BrowserAction" where
  "make_action action_data =
     (case py_index action_data ''action_type'' of
        Inl e \<Rightarrow> Inl e
      | Inr t \<Rightarrow>
          (case action_data of
             JObj kvs \<Rightarrow>
               Inr \<lparr>action_type = t,
                    target = get_or_empty kvs ''target'',
                    action_text = get_or_empty kvs ''text'',
                    description = get_or_empty kvs ''description'',
                    delay = 1.0,
                    val = (case map_of kvs ''value'' of None \<Rightarrow> JNull | Some v \<Rightarrow> v)\<rparr>
           | _ \<Rightarrow> Inl AttributeError))"

text \<open>\<open>self.task_context["email_details"].get(k, "")\<close>.\<close>

definition detail :: "task_context \<Rightarrow> string \<Rightarrow> pyexn + string" where
  "detail tc k =
     (case email_details tc of None \<Rightarrow> Inl (KeyError ''email_details'') | Some d \<Rightarrow> Inr (sget d k))"

definition set_text :: "BrowserAction \<Rightarrow> pyexn + string \<Rightarrow> pyexn + BrowserAction" where
  "set_text action r = (case r of Inl e \<Rightarrow> Inl e | Inr s \<Rightarrow> Inr (action\<lparr>action_text := JStr s\<rparr>))"

text \<open>The override of lines 436-447.\<close>

definition substitute :: "string \<Rightarrow> task_context \<Rightarrow> BrowserAction \<Rightarrow> pyexn + BrowserAction" where
  \<open>substitute user_input tc action =
     (case email_credentials tc of
        None \<Rightarrow> Inr action
      | Some creds \<Rightarrow>
          if mentions_send_email user_input \<and> creds \<noteq> [] then
            (if target action = JStr ''input#identifierId'' then
               set_text action (Inr (sget creds ''email''))
             else if target action = JStr ''input[type='password']'' then
               set_text action (Inr (sget creds ''password''))
             else if target action = JStr ''input[aria-label='To']'' then
               set_text action (detail tc ''recipient'')
             else if target action = JStr ''input[aria-label='Subject']'' then
               set_text action (detail tc ''subject'')
             else if target action = JStr ''div[aria-label='Message Body']'' then
               set_text action (detail tc ''body'')
             else Inr action)
          else Inr action)\<close>

text \<open>The local variables of the loop.\<close>

record loop_vars =
  response_content :: json
  screenshot :: "string option"
  extracted_data :: "string list"

definition ok_line :: "'w env \<Rightarrow> BrowserAction \<Rightarrow> string \<Rightarrow> string" where
  "ok_line env action result =
     [CHR 0x0A, CHR 0x0A, CHR 0xE2, CHR 0x9C, CHR 0x85] @ '' ''
     @ py_str env (description action) @ '': '' @ result"

definition cross :: string where
  "cross = [CHR 0xE2, CHR 0x9D, CHR 0x8C]"

definition fail_line :: "string \<Rightarrow> string" where
  "fail_line result = [CHR 0x0A, CHR 0x0A] @ cross @ '' Failed: '' @ result"

definition extracted_block :: "string list \<Rightarrow> string" where
  "extracted_block extracted =
     [CHR 0x0A, CHR 0x0A, CHR 0xF0, CHR 0x9F, CHR 0x93, CHR 0x8B] @ '' Extracted Data:''
     @ [CHR 0x0A] @ join_nl extracted"

definition significant :: "json list" where
  "significant =
     [JStr ''navigate'', JStr ''click'', JStr ''type'', JStr ''select'', JStr ''switch_frame'']"

text \<open>Lines 428-447: the step is built from the payload, then its text overridden.\<close>

definition prepare_action :: "string \<Rightarrow> task_context \<Rightarrow> json \<Rightarrow> pyexn + BrowserAction" where
  "prepare_action user_input tc action_data =
     (case make_action action_data of
        Inl e \<Rightarrow> Inl e
      | Inr action \<Rightarrow> substitute user_input tc action)"

text \<open>Lines 453-458 and 464-465, after a step that succeeded: the reply line, the extracted
  data, the screenshot, the pause.\<close>

definition step_ok ::
  "'w env \<Rightarrow> BrowserAction \<Rightarrow> string \<Rightarrow> loop_vars \<Rightarrow> agent \<Rightarrow> 'w
     \<Rightarrow> pyexn + loop_vars \<times> 'w \<times> event list" where
  "step_ok env action result lv ag x =
     (case py_iadd (response_content lv) (ok_line env action result) of
        Inl e \<Rightarrow> Inl e
      | Inr rc \<Rightarrow>
          (case (if action_type action \<in> set significant
                 then (case take_screenshot env ag x of (s, x2, ev2) \<Rightarrow> (Some s, x2, ev2))
                 else (screenshot lv, x, [])) of
             (shot, x2, ev2) \<Rightarrow>
               Inr (\<lparr>response_content = rc,
                     screenshot = shot,
                     extracted_data =
                       (if action_type action = JStr ''extract''
                        then extracted_data lv @ [result] else extracted_data lv)\<rparr>,
                    x2, ev2 @ [Sleep (delay action)])))"

text \<open>The \<open>for\<close> loop of lines 427-465 over the elements of \<open>intent_data["actions"]\<close>:
  \<open>Some e\<close> when \<open>e\<close> was raised, \<open>None\<close> when the loop ended or left by \<open>break\<close>.\<close>

fun run_actions ::
  "'w env \<Rightarrow> string \<Rightarrow> json list \<Rightarrow> loop_vars \<Rightarrow> agent \<Rightarrow> 'w
     \<Rightarrow> pyexn option \<times> loop_vars \<times> agent \<times> 'w \<times> event list" where
  "run_actions env user_input [] lv ag x = (None, lv, ag, x, [])"
| "run_actions env user_input (action_data # rest) lv ag x =
     (case prepare_action user_input (task_ctx ag) action_data of
        Inl e \<Rightarrow> (Some e, lv, ag, x, [])
      | Inr action \<Rightarrow>
          (case execute_action env action ag x of
             ((success, result), ag1, x1, ev1) \<Rightarrow>
               if success then
                 (case step_ok env action result lv ag1 x1 of
                    Inl e \<Rightarrow> (Some e, lv, ag1, x1, ev1)
                  | Inr (lv1, x2, ev2) \<Rightarrow>
                      (case run_actions env user_input rest lv1 ag1 x2 of
                         (r, lv', ag', x', ev') \<Rightarrow> (r, lv', ag', x', ev1 @ ev2 @ ev')))
               else
                 (case py_iadd (response_content lv) (fail_line result) of
                    Inl e \<Rightarrow> (Some e, lv, ag1, x1, ev1)
                  | Inr rc \<Rightarrow>
                      (None, lv\<lparr>response_content := rc\<rparr>, ag1\<lparr>state := ERROR\<rparr>, x1, ev1))))"

text \<open>\<open>if intent_data.get("actions"): for action_data in intent_data["actions"]: ...\<close>
  (line 426-427).  Of the values that are true, only a list has elements that can be
  read as a dict: iterating anything else raises \<open>TypeError\<close> before a step runs.\<close>

definition run_plan ::
  "'w env \<Rightarrow> string \<Rightarrow> json \<Rightarrow> loop_vars \<Rightarrow> agent \<Rightarrow> 'w
     \<Rightarrow> pyexn option \<times> loop_vars \<times> agent \<times> 'w \<times> event list" where
  "run_plan env user_input actions lv ag x =
     (if truthy actions then
        (case actions of
           JArr xs \<Rightarrow> run_actions env user_input xs lv ag x
         | _ \<Rightarrow> (Some TypeError, lv, ag, x, []))
      else (None, lv, ag, x, []))"

definition assistant :: "json \<Rightarrow> string option \<Rightarrow> ConversationMessage" where
  "assistant c shot = \<lparr>cm_role = ''assistant'', cm_content = c, cm_screenshot = shot\<rparr>"

text \<open>Lines 467-488: the final screenshot, the extracted data, the history entry, the
  state, the returned message.\<close>

definition finish_turn ::
  "'w env \<Rightarrow> loop_vars \<Rightarrow> agent \<Rightarrow> 'w
     \<Rightarrow> (pyexn + ConversationMessage) \<times> agent \<times> 'w \<times> event list" where
  "finish_turn env lv ag x =
     (case (if (screenshot lv = None \<or> screenshot lv = Some []) \<and> is_initialized ag
            then (case take_screenshot env ag x of (s, x1, ev1) \<Rightarrow> (Some s, x1, ev1))
            else (screenshot lv, x, [])) of
        (shot, x1, ev1) \<Rightarrow>
          (case (if extracted_data lv \<noteq> []
                 then py_iadd (response_content lv) (extracted_block (extracted_data lv))
                 else Inr (response_content lv)) of
             Inl e \<Rightarrow> (Inl e, ag, x1, ev1)
           | Inr rc \<Rightarrow>
               (Inr (assistant rc shot),
                ag\<lparr>conversation_history :=
                      conversation_history ag @ [\<lparr>role = ''assistant'', content = rc\<rparr>],
                    state := IDLE\<rparr>,
                x1, ev1)))"

text \<open>Lines 420-488, entered with the state set to \<open>ACTING\<close>.\<close>

definition act ::
  "'w env \<Rightarrow> string \<Rightarrow> json \<Rightarrow> agent \<Rightarrow> 'w
     \<Rightarrow> (pyexn + ConversationMessage) \<times> agent \<times> 'w \<times> event list" where
  "act env user_input intent_data ag x =
     (case py_index intent_data ''response'' of
        Inl e \<Rightarrow> (Inl e, ag, x, [])
      | Inr resp \<Rightarrow>
     (case py_get intent_data ''actions'' of
        Inl e \<Rightarrow> (Inl e, ag, x, [])
      | Inr actions \<Rightarrow>
     (case run_plan env user_input actions
             \<lparr>response_content = resp, screenshot = None, extracted_data = []\<rparr> ag x of
        (Some e, lv, ag1, x1, ev1) \<Rightarrow> (Inl e, ag1, x1, ev1)
      | (None, lv, ag1, x1, ev1) \<Rightarrow>
          (case finish_turn env lv ag1 x1 of
             (r, ag2, x2, ev2) \<Rightarrow> (r, ag2, x2, ev1 @ ev2)))))"

text \<open>Lines 406-488: the call of the Reasoner, the check of \<open>requires_info\<close>, the
  execution.\<close>

definition plan_and_act ::
  "'w env \<Rightarrow> string \<Rightarrow> agent \<Rightarrow> 'w
     \<Rightarrow> (pyexn + ConversationMessage) \<times> agent \<times> 'w \<times> event list" where
  "plan_and_act env user_input ag x =
     (case analyze_intent env user_input (conversation_history ag) x of
        (Inl e, x1, ev1) \<Rightarrow> (Inl e, ag\<lparr>state := THINKING\<rparr>, x1, ev1)
      | (Inr intent_data, x1, ev1) \<Rightarrow>
          (case py_get intent_data ''requires_info'' of
             Inl e \<Rightarrow> (Inl e, ag\<lparr>state := THINKING\<rparr>, x1, ev1)
           | Inr requires_info \<Rightarrow>
               if truthy requires_info then
                 (case py_index intent_data ''response'' of
                    Inl e \<Rightarrow> (Inl e, ag\<lparr>state := WAITING_FOR_INPUT\<rparr>, x1, ev1)
                  | Inr resp \<Rightarrow>
                      (Inr (assistant resp None), ag\<lparr>state := WAITING_FOR_INPUT\<rparr>, x1, ev1))
               else
                 (case act env user_input intent_data (ag\<lparr>state := ACTING\<rparr>) x1 of
                    (r, ag2, x2, ev2) \<Rightarrow> (r, ag2, x2, ev1 @ ev2))))"

definition credentials_prompt :: string where
  "credentials_prompt =
     ''Please provide your Gmail address and password (use a test account only) to proceed with sending an email.''"

definition details_prompt :: string where
  "details_prompt =
     ''Please provide the recipient'' @ quote @ ''s email, subject, and body. Example: ''
     @ quote @ ''Send email to test@example.com, subject '' @ [CHR 0x22] @ ''Meeting''
     @ [CHR 0x22] @ '', body '' @ [CHR 0x22] @ ''Let'' @ quote @ ''s meet tomorrow.''
     @ [CHR 0x22] @ quote"

text \<open>\<open>process_user_input\<close> (lines 368-488).\<close>

definition process_user_input ::
  "'w env \<Rightarrow> string \<Rightarrow> agent \<Rightarrow> 'w
     \<Rightarrow> (pyexn + ConversationMessage) \<times> agent \<times> 'w \<times> event list" where
  "process_user_input env user_input ag0 x =
     (let ag = ag0\<lparr>conversation_history :=
                     conversation_history ag0 @ [\<lparr>role = ''user'', content = JStr user_input\<rparr>]\<rparr>
      in
        if mentions_send_email user_input \<and> \<not> has_credentials (task_ctx ag) then
          (Inr (assistant (JStr credentials_prompt) None),
           ag\<lparr>state := WAITING_FOR_INPUT\<rparr>, x, [])
        else if mentions_send_email user_input \<and> has_credentials (task_ctx ag) then
          (case (re_recipient env user_input, re_subject env user_input,
                 re_body env user_input) of
             (Some recipient, Some subject, Some body) \<Rightarrow>
               plan_and_act env user_input
                 (ag\<lparr>task_ctx := (task_ctx ag)\<lparr>email_details :=
                        Some [(''recipient'', recipient), (''subject'', subject),
                              (''body'', body)]\<rparr>\<rparr>) x
           | _ \<Rightarrow>
               (Inr (assistant (JStr details_prompt) None),
                ag\<lparr>state := WAITING_FOR_INPUT\<rparr>, x, []))
        else plan_and_act env user_input ag x)"

section \<open>Reading the trace of a turn\<close>

text \<open>The payloads posted to the Reasoner, in order.\<close>

fun posts :: "event list \<Rightarrow> msg list list" where
  "posts [] = []"
| "posts (Post m # es) = m # posts es"
| "posts (e # es) = posts es"

text \<open>The calls of \<open>execute_action\<close>, in order: the step, whether it succeeded, the text
  it returned.\<close>

fun execs :: "event list \<Rightarrow> (BrowserAction \<times> bool \<times> string) list" where
  "execs [] = []"
| "execs (Exec a ok r # es) = (a, ok, r) # execs es"
| "execs (e # es) = execs es"

text \<open>Nothing is executed after a step that failed.\<close>

fun fail_fast :: "(BrowserAction \<times> bool \<times> string) list \<Rightarrow> bool" where
  "fail_fast [] = True"
| "fail_fast ((a, ok, r) # es) = (if ok then fail_fast es else es = [])"

text \<open>The line the loop adds to the reply for an executed step.\<close>

definition line :: "'w env \<Rightarrow> BrowserAction \<times> bool \<times> string \<Rightarrow> string" where
  "line env e = (case e of (a, ok, r) \<Rightarrow> if ok then ok_line env a r else fail_line r)"

text \<open>The results the loop collects in \<open>extracted_data\<close>.\<close>

definition extracted_of :: "(BrowserAction \<times> bool \<times> string) list \<Rightarrow> string list" where
  "extracted_of es =
     map (\<lambda>(a, ok, r). r) (filter (\<lambda>(a, ok, r). ok \<and> action_type a = JStr ''extract'') es)"

text \<open>The agent fields that executing steps leaves alone.\<close>

definition same_agent :: "agent \<Rightarrow> agent \<Rightarrow> bool" where
  "same_agent ag ag' \<longleftrightarrow>
     conversation_history ag' = conversation_history ag \<and> task_ctx ag' = task_ctx ag \<and>
     page_present ag' = page_present ag \<and> is_initialized ag' = is_initialized ag"

text \<open>The history entry of an utterance (lines 372-375).\<close>

definition user_turn :: "string \<Rightarrow> msg" where
  "user_turn u = \<lparr>role = ''user'', content = JStr u\<rparr>"

text \<open>The elements the loop goes through.\<close>

definition steps_of :: "json \<Rightarrow> json list" where
  "steps_of actions = (case actions of JArr xs \<Rightarrow> xs | _ \<Rightarrow> [])"

text \<open>The text \<open>finish_turn\<close> adds for the extracted data.\<close>

definition extracted_suffix :: "string list \<Rightarrow> string" where
  "extracted_suffix extracted = (if extracted = [] then [] else extracted_block extracted)"

text \<open>What \<open>analyze_intent\<close> returns when it is called in this turn (\<open>None\<close> when it
  raises).\<close>

definition plan_of :: "'w env \<Rightarrow> string \<Rightarrow> agent \<Rightarrow> 'w \<Rightarrow> json" where
  "plan_of env u ag x =
     (case fst (analyze_intent env u (conversation_history ag @ [user_turn u]) x) of
        Inr intent_data \<Rightarrow> intent_data
      | Inl e \<Rightarrow> JNull)"

text \<open>The parts of what \<open>process_user_input\<close> gives back in the model: the agent after
  the turn and the trace of the turn.\<close>

definition agent_after :: "'r \<times> agent \<times> 'w \<times> event list \<Rightarrow> agent" where
  "agent_after t = fst (snd t)"

definition events :: "'r \<times> agent \<times> 'w \<times> event list \<Rightarrow> event list" where
  "events t = snd (snd (snd t))"

text \<open>The task context the loop works with: lines 386-404 store the parts of the email
  found in the utterance.\<close>

definition turn_context :: "'w env \<Rightarrow> string \<Rightarrow> task_context \<Rightarrow> task_context" where
  "turn_context env u tc =
     (if mentions_send_email u \<and> has_credentials tc then
        (case (re_recipient env u, re_subject env u, re_body env u) of
           (Some recipient, Some subject, Some body) \<Rightarrow>
             tc\<lparr>email_details :=
                  Some [(''recipient'', recipient), (''subject'', subject), (''body'', body)]\<rparr>
         | _ \<Rightarrow> tc)
      else tc)"

text \<open>The kinds \<open>execute_action\<close> has a branch for.\<close>

definition known_kinds :: "json list" where
  "known_kinds = [JStr ''navigate'', JStr ''click'', JStr ''type'', JStr ''scroll'', JStr ''wait'',
                  JStr ''screenshot'', JStr ''select'', JStr ''extract'', JStr ''switch_frame'']"

text \<open>The pauses of an event last one second: \<open>asyncio.sleep(1.0)\<close>,
  \<open>wait_for_timeout(1000)\<close>, a step executed with \<open>delay = 1.0\<close>.\<close>

fun paced :: "event \<Rightarrow> bool" where
  "paced (Sleep d) = (d = 1)"
| "paced (BCall (WaitForTimeout ms)) = (ms = 1000)"
| "paced (Exec a ok r) = (delay a = 1)"
| "paced e = True"

text \<open>The reply line of a step that succeeded.\<close>

definition ok_line_of :: "'w env \<Rightarrow> BrowserAction \<times> bool \<times> string \<Rightarrow> string" where
  "ok_line_of env e = ok_line env (fst e) (snd (snd e))"

text \<open>How often \<open>p\<close> occurs in \<open>s\<close>.\<close>

fun count_sub :: "string \<Rightarrow> string \<Rightarrow> nat" where
  "count_sub p [] = 0"
| "count_sub p (c # cs) = (if starts_with p (c # cs) then 1 else 0) + count_sub p cs"

text \<open>A text without the mark of a failed step.\<close>

definition marker_free :: "string \<Rightarrow> bool" where
  "marker_free s = (count_sub cross s = 0)"

text \<open>Whether lines 377-399 end the turn before the Reasoner is asked.\<close>

definition short_circuit :: "'w env \<Rightarrow> string \<Rightarrow> task_context \<Rightarrow> bool" where
  "short_circuit env u tc \<longleftrightarrow>
     mentions_send_email u \<and>
     (\<not> has_credentials tc \<or> re_recipient env u = None \<or> re_subject env u = None
      \<or> re_body env u = None)"

section \<open>Worlds and agents for the examples\<close>

text \<open>A world in which the Reasoner answers \<open>reply\<close>, \<open>json.loads\<close> reads that text as
  \<open>parsed\<close> (\<open>None\<close>: it is not JSON), the page calls raise as \<open>page\<close> says, and the three searches find the
  parts of \<open>send email to a@b.com, subject "Hi", body "Yo"\<close>.\<close>

definition demo_env ::
  "string \<Rightarrow> json option \<Rightarrow> (bcall \<Rightarrow> string option) \<Rightarrow> unit env" where
  "demo_env reply parsed page =
     \<lparr>system_prompt = ''You are an AI browser automation agent.'',
      http_post = (\<lambda>m x. (Http200 (JStr reply), x)),
      json_loads = (\<lambda>s. if s = reply then (case parsed of Some v \<Rightarrow> Loaded v
                                                | None \<Rightarrow> JSONDecodeError)
                       else JSONDecodeError),
      py_repr = (\<lambda>v. if v = JFloat 1 then ''1.0'' else ''None''),
      re_recipient = (\<lambda>s. Some ''a@b.com''),
      re_subject = (\<lambda>s. Some ''Hi''),
      re_body = (\<lambda>s. Some ''Yo''),
      page_call = (\<lambda>c x. (page c, x)),
      query_selector = (\<lambda>t x. (Inr True, x)),
      text_content = (\<lambda>x. (Inr (Some ''Example Domain''), x)),
      screenshot_b64 = (\<lambda>x. (Inr ''iVBORw0KGgo='', x))\<rparr>"

text \<open>The agent after \<open>initialize\<close>, with the credentials the sidebar stored, if any.\<close>

definition fresh_agent :: "(string \<times> string) list option \<Rightarrow> agent" where
  "fresh_agent creds =
     \<lparr>state = IDLE, conversation_history = [],
      task_ctx = \<lparr>email_credentials = creds, email_details = None\<rparr>,
      page_present = True, is_initialized = True, current_frame = None\<rparr>"

text \<open>A Reasoner reply that asks for more information.\<close>

definition info_reply :: string where
  \<open>info_reply = ''{"actions": [{"action_type": "navigate", "target": "https://mail.google.com"}], "requires_info": ["email subject"], "response": "Which subject?"}''\<close>

definition info_plan :: json where
  "info_plan = JObj
     [(''actions'', JArr [JObj [(''action_type'', JStr ''navigate''),
                               (''target'', JStr ''https://mail.google.com'')]]),
      (''requires_info'', JArr [JStr ''email subject'']),
      (''response'', JStr ''Which subject?'')]"

text \<open>A Reasoner reply whose only step has a kind outside the vocabulary.\<close>

definition fly_reply :: string where
  \<open>fly_reply = ''{"actions": [{"action_type": "fly", "target": "moon"}], "requires_info": [], "response": "Taking off."}''\<close>

definition fly_plan :: json where
  "fly_plan = JObj
     [(''actions'', JArr [JObj [(''action_type'', JStr ''fly''), (''target'', JStr ''moon'')]]),
      (''requires_info'', JArr []),
      (''response'', JStr ''Taking off.'')]"

definition fly_action :: BrowserAction where
  "fly_action = \<lparr>action_type = JStr ''fly'', target = JStr ''moon'', action_text = JStr [],
                  description = JStr [], delay = 1, val = JNull\<rparr>"

text \<open>An agent with five entries in its history.\<close>

definition five_turns :: "msg list" where
  "five_turns =
     [\<lparr>role = ''user'', content = JStr ''one''\<rparr>,
      \<lparr>role = ''assistant'', content = JStr ''two''\<rparr>,
      \<lparr>role = ''user'', content = JStr ''three''\<rparr>,
      \<lparr>role = ''assistant'', content = JStr ''four''\<rparr>,
      \<lparr>role = ''user'', content = JStr ''five''\<rparr>]"

text \<open>A Reasoner reply with a click that will time out between two other steps.\<close>

definition click_reply :: string where
  \<open>click_reply = ''{"actions": [{"action_type": "navigate", "target": "https://example.com", "description": "Open the site"}, {"action_type": "click", "target": "#go", "description": "Press Go"}, {"action_type": "extract", "target": "h1", "description": "Read the title"}], "requires_info": [], "response": "On it."}''\<close>

definition click_plan :: json where
  "click_plan = JObj
     [(''actions'',
       JArr [JObj [(''action_type'', JStr ''navigate''), (''target'', JStr ''https://example.com''),
                   (''description'', JStr ''Open the site'')],
             JObj [(''action_type'', JStr ''click''), (''target'', JStr ''#go''),
                   (''description'', JStr ''Press Go'')],
             JObj [(''action_type'', JStr ''extract''), (''target'', JStr ''h1''),
                   (''description'', JStr ''Read the title'')]]),
      (''requires_info'', JArr []),
      (''response'', JStr ''On it.'')]"

definition navigate_step :: BrowserAction where
  "navigate_step = \<lparr>action_type = JStr ''navigate'', target = JStr ''https://example.com'',
                     action_text = JStr [], description = JStr ''Open the site'', delay = 1,
                     val = JNull\<rparr>"

definition click_step :: BrowserAction where
  "click_step = \<lparr>action_type = JStr ''click'', target = JStr ''#go'', action_text = JStr [],
                  description = JStr ''Press Go'', delay = 1, val = JNull\<rparr>"

text \<open>A page on which waiting for \<open>#go\<close> times out and every other call succeeds.\<close>

definition go_times_out :: "bcall \<Rightarrow> string option" where
  "go_times_out c =
     (if c = WaitForSelector (JStr ''#go'') then Some ''Timeout 10000ms exceeded'' else None)"


text \<open>A Reasoner reply with a \<open>wait\<close> step that asks for two seconds.\<close>

definition wait_reply :: string where
  \<open>wait_reply = ''{"actions": [{"action_type": "wait", "target": "", "delay": 2.0, "description": "Wait for page load"}], "requires_info": [], "response": "Waiting."}''\<close>

definition wait_plan :: json where
  "wait_plan = JObj
     [(''actions'',
       JArr [JObj [(''action_type'', JStr ''wait''), (''target'', JStr []), (''delay'', JFloat 2),
                   (''description'', JStr ''Wait for page load'')]]),
      (''requires_info'', JArr []),
      (''response'', JStr ''Waiting.'')]"

definition wait_step :: BrowserAction where
  "wait_step = \<lparr>action_type = JStr ''wait'', target = JStr [], action_text = JStr [],
                 description = JStr ''Wait for page load'', delay = 1, val = JNull\<rparr>"

text \<open>The credentials the sidebar stored, and a step that types into the password field.\<close>

definition stored_vault :: "(string \<times> string) list" where
  "stored_vault = [(''email'', ''tester@gmail.com''), (''password'', ''hunter2'')]"

definition pw_step :: BrowserAction where
  \<open>pw_step = \<lparr>action_type = JStr ''type'', target = JStr ''input[type='password']'',
               action_text = JStr ''PASSWORD'', description = JStr ''Enter password'',
               delay = 1, val = JNull\<rparr>\<close>

text \<open>A Reasoner reply whose step types a placeholder into the password field.\<close>

definition pw_reply :: string where
  \<open>pw_reply = ''{"actions": [{"action_type": "type", "target": "input[type='password']", "text": "PASSWORD", "description": "Enter password"}], "requires_info": [], "response": "Signing in."}''\<close>

definition pw_plan :: json where
  \<open>pw_plan = JObj
     [(''actions'',
       JArr [JObj [(''action_type'', JStr ''type''), (''target'', JStr ''input[type='password']''),
                   (''text'', JStr ''PASSWORD''), (''description'', JStr ''Enter password'')]]),
      (''requires_info'', JArr []),
      (''response'', JStr ''Signing in.'')]\<close>

text \<open>An utterance in which the three searches find \<open>a@b.com\<close>, \<open>Hi\<close> and \<open>Yo\<close>.\<close>

definition email_utterance :: string where
  \<open>email_utterance = ''send email to a@b.com, subject "Hi", body "Yo"''\<close>

text \<open>Whether a history entry holds a text.\<close>

definition holds :: "string \<Rightarrow> msg \<Rightarrow> bool" where
  "holds secret m = (case content m of JStr s \<Rightarrow> py_in secret s | _ \<Rightarrow> False)"

text \<open>Two turns with the password stored: the Reasoner's step types into the password
  field, and the next utterance is sent with the history of the first turn.\<close>

definition leak_env :: "unit env" where
  "leak_env = demo_env pw_reply (Some pw_plan) (\<lambda>c. None)"

definition first_turn :: "(pyexn + ConversationMessage) \<times> agent \<times> unit \<times> event list" where
  "first_turn = process_user_input leak_env email_utterance (fresh_agent (Some stored_vault)) ()"

definition second_turn :: "(pyexn + ConversationMessage) \<times> agent \<times> unit \<times> event list" where
  "second_turn = process_user_input leak_env ''continue'' (agent_after first_turn) ()"

definition typed_secret :: string where
  \<open>typed_secret = ''Typed 'hunter2' into input[type='password']''\<close>

definition other_vault :: task_context where
  "other_vault = \<lparr>email_credentials = Some [(''email'', ''qa@gmail.com''), (''password'', ''s3cret'')],
                  email_details = None\<rparr>"

section \<open>The trace of the loop\<close>

lemma posts_append [simp]: "posts (xs @ ys) = posts xs @ posts ys"
  by (induction xs rule: posts.induct) simp_all

lemma execs_append [simp]: "execs (xs @ ys) = execs xs @ execs ys"
  by (induction xs rule: execs.induct) simp_all

lemma calls_events: "\<exists>n. snd (snd (calls env cs x)) = map BCall (take n cs)"
proof (induction cs arbitrary: x)
  case Nil
  then show ?case by (simp add: calls.simps)
next
  case (Cons c cs)
  obtain r x' where pc: "page_call env c x = (r, x')" by (cases "page_call env c x")
  show ?case
  proof (cases r)
    case None
    from Cons.IH[of x'] obtain n where n: "snd (snd (calls env cs x')) = map BCall (take n cs)" by blast
    have "snd (snd (calls env (c # cs) x)) = map BCall (take (Suc n) (c # cs))"
      using pc None n by (cases "calls env cs x'") (simp add: call_def calls.simps)
    then show ?thesis by blast
  next
    case (Some e)
    have "snd (snd (calls env (c # cs) x)) = map BCall (take 1 (c # cs))"
      using pc Some by (simp add: call_def calls.simps)
    then show ?thesis by blast
  qed
qed

lemma posts_BCall [simp]: "posts (map BCall cs) = []"
  by (induction cs) simp_all
lemma execs_BCall [simp]: "execs (map BCall cs) = []"
  by (induction cs) simp_all

lemma calls_posts [simp]: "calls env cs x = (r, x', ev) \<Longrightarrow> posts ev = []"
  using calls_events[of env cs x] by auto
lemma calls_execs [simp]: "calls env cs x = (r, x', ev) \<Longrightarrow> execs ev = []"
  using calls_events[of env cs x] by auto

lemma try_quiet:
  assumes "execute_action_try env a ag x = (r, ag', x', ev)"
  shows "posts ev = [] \<and> execs ev = []"
  using assms unfolding execute_action_try_def
  by (auto split: if_splits prod.splits option.splits sum.splits bool.splits)

lemma run_quiet:
  assumes "execute_action_run env a ag x = (r, ag', x', ev)"
  shows "posts ev = [] \<and> execs ev = []"
  using assms try_quiet[of env a ag x] unfolding execute_action_run_def call_def
  by (auto split: if_splits prod.splits option.splits sum.splits)

lemma execute_action_trace:
  assumes "execute_action env a ag x = ((ok, r), ag', x', ev)"
  shows "posts ev = [] \<and> execs ev = [(a, ok, r)]"
  using assms run_quiet[of env a ag x] unfolding execute_action_def
  by (auto split: prod.splits)

lemma take_screenshot_quiet:
  assumes "take_screenshot env ag x = (s, x', ev)"
  shows "posts ev = [] \<and> execs ev = []"
  using assms unfolding take_screenshot_def
  by (auto split: if_splits prod.splits sum.splits)

lemma step_ok_quiet:
  assumes "step_ok env a res lv ag x = Inr (lv', x', ev)"
  shows "posts ev = [] \<and> execs ev = []"
  using assms take_screenshot_quiet[of env ag x] unfolding step_ok_def
  by (auto split: if_splits prod.splits sum.splits)

lemma execute_action_agent:
  assumes "execute_action env a ag x = (r, ag', x', ev)"
  shows "same_agent ag ag' \<and> state ag' = state ag"
  using assms unfolding execute_action_def execute_action_run_def execute_action_try_def same_agent_def
  by (auto split: if_splits prod.splits option.splits sum.splits bool.splits)

lemma run_actions_ConsE:
  assumes "run_actions env u (ad # rest) lv ag x = (r, lv', ag', x', ev)"
  obtains
    (unbuilt) e where "prepare_action u (task_ctx ag) ad = Inl e"
      "r = Some e" "lv' = lv" "ag' = ag" "x' = x" "ev = []"
  | (failed) a res ag1 where "prepare_action u (task_ctx ag) ad = Inr a"
      "execute_action env a ag x = ((False, res), ag1, x', ev)"
      "(\<exists>e. py_iadd (response_content lv) (fail_line res) = Inl e \<and> r = Some e \<and> lv' = lv \<and> ag' = ag1) \<or>
       (\<exists>rc. py_iadd (response_content lv) (fail_line res) = Inr rc \<and> r = None
          \<and> lv' = lv\<lparr>response_content := rc\<rparr> \<and> ag' = ag1\<lparr>state := ERROR\<rparr>)"
  | (raised) a res e where "prepare_action u (task_ctx ag) ad = Inr a"
      "execute_action env a ag x = ((True, res), ag', x', ev)"
      "step_ok env a res lv ag' x' = Inl e" "r = Some e" "lv' = lv"
  | (went_on) a res ag1 x1 ev1 lv1 x2 ev2 ev3 where "prepare_action u (task_ctx ag) ad = Inr a"
      "execute_action env a ag x = ((True, res), ag1, x1, ev1)"
      "step_ok env a res lv ag1 x1 = Inr (lv1, x2, ev2)"
      "run_actions env u rest lv1 ag1 x2 = (r, lv', ag', x', ev3)"
      "ev = ev1 @ ev2 @ ev3"
proof (cases "prepare_action u (task_ctx ag) ad")
  case (Inl e)
  with assms show thesis by (intro unbuilt[of e]) simp_all
next
  case (Inr a)
  obtain ok res ag1 x1 ev1 where ex: "execute_action env a ag x = ((ok, res), ag1, x1, ev1)"
    by (cases "execute_action env a ag x") auto
  show thesis
  proof (cases ok)
    case False
    show thesis
    proof (cases "py_iadd (response_content lv) (fail_line res)")
      case (Inl e)
      with assms Inr ex False show thesis by (intro failed[of a res ag1]) simp_all
    next
      case (Inr rc)
      with assms \<open>prepare_action u (task_ctx ag) ad = Inr a\<close> ex False show thesis
        by (intro failed[of a res ag1]) simp_all
    qed
  next
    case True
    show thesis
    proof (cases "step_ok env a res lv ag1 x1")
      case (Inl e)
      with assms Inr ex True show thesis by (intro raised[of a res e]) simp_all
    next
      case step: (Inr t)
      obtain lv1 x2 ev2 where t: "t = (lv1, x2, ev2)" by (cases t) auto
      obtain r3 lv3 ag3 x3 ev3 where
        rec: "run_actions env u rest lv1 ag1 x2 = (r3, lv3, ag3, x3, ev3)"
        by (cases "run_actions env u rest lv1 ag1 x2") auto
      with assms Inr ex True step t show thesis
        by (intro went_on[of a res ag1 x1 ev1 lv1 x2 ev2 ev3]) simp_all
    qed
  qed
qed


lemma extracted_of_append: "extracted_of (xs @ ys) = extracted_of xs @ extracted_of ys"
  by (simp add: extracted_of_def)

lemma step_ok_vars:
  assumes "step_ok env a res lv ag x = Inr (lv1, x2, ev2)"
  shows "py_iadd (response_content lv) (ok_line env a res) = Inr (response_content lv1)"
    and "extracted_data lv1 = extracted_data lv @ extracted_of [(a, True, res)]"
  using assms unfolding step_ok_def extracted_of_def
  by (auto split: if_splits prod.splits sum.splits)

lemma same_agent_refl [simp]: "same_agent ag ag"
  by (simp add: same_agent_def)

lemma same_agent_trans: "same_agent a b \<Longrightarrow> same_agent b c \<Longrightarrow> same_agent a c"
  by (simp add: same_agent_def)

lemma same_agent_state [simp]: "same_agent a (b\<lparr>state := s\<rparr>) = same_agent a b"
  by (simp add: same_agent_def)

lemma run_actions_trace:
  assumes "run_actions env u ads lv ag x = (r, lv', ag', x', ev)"
  shows "posts ev = [] \<and> fail_fast (execs ev) \<and> same_agent ag ag'
         \<and> (r = None \<longrightarrow> state ag' = (if list_all (\<lambda>e. fst (snd e)) (execs ev) then state ag else ERROR))"
  using assms
proof (induction ads arbitrary: lv ag x r lv' ag' x' ev)
  case Nil
  then show ?case by simp
next
  case (Cons ad rest)
  from Cons.prems show ?case
  proof (cases rule: run_actions_ConsE)
    case (unbuilt e)
    then show ?thesis by simp
  next
    case (failed a res ag1)
    then show ?thesis
      using execute_action_trace[of env a ag x False res ag1 x' ev]
        execute_action_agent[of env a ag x "(False, res)" ag1 x' ev]
      by auto
  next
    case (raised a res e)
    then show ?thesis
      using execute_action_trace[of env a ag x True res ag' x' ev]
        execute_action_agent[of env a ag x "(True, res)" ag' x' ev]
      by auto
  next
    case (went_on a res ag1 x1 ev1 lv1 x2 ev2 ev3)
    note ih = Cons.IH[OF went_on(4)]
    show ?thesis
      using went_on ih execute_action_trace[OF went_on(2)] execute_action_agent[OF went_on(2)]
        step_ok_quiet[OF went_on(3)]
      by (auto intro: same_agent_trans)
  qed
qed

lemma run_actions_prefix:
  assumes "run_actions env u ads lv ag x = (r, lv', ag', x', ev)"
  shows "map (Inr \<circ> fst) (execs ev)
           = map (prepare_action u (task_ctx ag)) (take (length (execs ev)) ads)"
  using assms
proof (induction ads arbitrary: lv ag x r lv' ag' x' ev)
  case Nil
  then show ?case by simp
next
  case (Cons ad rest)
  from Cons.prems show ?case
  proof (cases rule: run_actions_ConsE)
    case (unbuilt e)
    then show ?thesis by simp
  next
    case (failed a res ag1)
    then show ?thesis
      using execute_action_trace[of env a ag x False res ag1 x' ev] by simp
  next
    case (raised a res e)
    then show ?thesis
      using execute_action_trace[of env a ag x True res ag' x' ev] by simp
  next
    case (went_on a res ag1 x1 ev1 lv1 x2 ev2 ev3)
    note ih = Cons.IH[OF went_on(4)]
    have "task_ctx ag1 = task_ctx ag"
      using execute_action_agent[OF went_on(2)] by (simp add: same_agent_def)
    then show ?thesis
      using went_on ih execute_action_trace[OF went_on(2)] step_ok_quiet[OF went_on(3)]
      by simp
  qed
qed

lemma run_actions_content:
  assumes "run_actions env u ads lv ag x = (None, lv', ag', x', ev)"
  shows "extracted_data lv' = extracted_data lv @ extracted_of (execs ev)
         \<and> (\<forall>s. response_content lv = JStr s \<longrightarrow>
                response_content lv' = JStr (s @ concat (map (line env) (execs ev))))"
  using assms
proof (induction ads arbitrary: lv ag x lv' ag' x' ev)
  case Nil
  then show ?case by (simp add: extracted_of_def)
next
  case (Cons ad rest)
  from Cons.prems show ?case
  proof (cases rule: run_actions_ConsE)
    case (unbuilt e)
    then show ?thesis by simp
  next
    case (failed a res ag1)
    then show ?thesis
      using execute_action_trace[of env a ag x False res ag1 x' ev]
      by (auto simp: extracted_of_def line_def)
  next
    case (raised a res e)
    then show ?thesis by simp
  next
    case (went_on a res ag1 x1 ev1 lv1 x2 ev2 ev3)
    note ih = Cons.IH[OF went_on(4)]
    have ex: "execs ev = (a, True, res) # execs ev3"
      using went_on(5) execute_action_trace[OF went_on(2)] step_ok_quiet[OF went_on(3)]
      by simp
    have "extracted_of (execs ev) = extracted_of [(a, True, res)] @ extracted_of (execs ev3)"
      unfolding ex using extracted_of_append[of "[(a, True, res)]" "execs ev3"] by simp
    then have "extracted_data lv' = extracted_data lv @ extracted_of (execs ev)"
      using ih[THEN conjunct1] step_ok_vars(2)[OF went_on(3)] by simp
    moreover have "response_content lv' = JStr (s @ concat (map (line env) (execs ev)))"
      if s: "response_content lv = JStr s" for s
    proof -
      have "response_content lv1 = JStr (s @ ok_line env a res)"
        using step_ok_vars(1)[OF went_on(3)] s by simp
      with ih[THEN conjunct2]
      have "response_content lv'
              = JStr ((s @ ok_line env a res) @ concat (map (line env) (execs ev3)))"
        by blast
      then show ?thesis by (simp add: ex line_def)
    qed
    ultimately show ?thesis by blast
  qed
qed

section \<open>The trace of a turn\<close>

lemma analyze_intent_trace:
  assumes "analyze_intent env u h x = (r, x', ev)"
  shows "ev = [Post (build_messages env u h)]"
  using assms unfolding analyze_intent_def generate_response_def
  by (auto split: prod.splits json.splits loads_outcome.splits http_outcome.splits)

lemma run_plan_trace:
  assumes "run_plan env u actions lv ag x = (r, lv', ag', x', ev)"
  shows "posts ev = [] \<and> fail_fast (execs ev) \<and> same_agent ag ag'
         \<and> (r = None \<longrightarrow> state ag' = (if list_all (\<lambda>e. fst (snd e)) (execs ev) then state ag else ERROR))"
proof (cases "\<exists>xs. actions = JArr xs \<and> xs \<noteq> []")
  case True
  then obtain xs where "actions = JArr xs" "xs \<noteq> []" by blast
  with assms have "run_actions env u xs lv ag x = (r, lv', ag', x', ev)"
    by (simp add: run_plan_def)
  then show ?thesis by (rule run_actions_trace)
next
  case False
  with assms have "ev = [] \<and> ag' = ag"
    by (cases actions) (auto simp: run_plan_def split: if_splits)
  then show ?thesis by simp
qed

lemma run_plan_prefix:
  assumes "run_plan env u actions lv ag x = (r, lv', ag', x', ev)"
  shows "map (Inr \<circ> fst) (execs ev)
           = map (prepare_action u (task_ctx ag)) (take (length (execs ev)) (steps_of actions))"
proof (cases "\<exists>xs. actions = JArr xs \<and> xs \<noteq> []")
  case True
  then obtain xs where "actions = JArr xs" "xs \<noteq> []" by blast
  with assms have "run_actions env u xs lv ag x = (r, lv', ag', x', ev)" "steps_of actions = xs"
    by (simp_all add: run_plan_def steps_of_def)
  then show ?thesis using run_actions_prefix by metis
next
  case False
  with assms have "ev = []"
    by (cases actions) (auto simp: run_plan_def split: if_splits)
  then show ?thesis by simp
qed

lemma run_plan_content:
  assumes "run_plan env u actions lv ag x = (None, lv', ag', x', ev)"
  shows "extracted_data lv' = extracted_data lv @ extracted_of (execs ev)
         \<and> (\<forall>s. response_content lv = JStr s \<longrightarrow>
                response_content lv' = JStr (s @ concat (map (line env) (execs ev))))"
proof (cases "\<exists>xs. actions = JArr xs \<and> xs \<noteq> []")
  case True
  then obtain xs where "actions = JArr xs" "xs \<noteq> []" by blast
  with assms have "run_actions env u xs lv ag x = (None, lv', ag', x', ev)"
    by (simp add: run_plan_def)
  then show ?thesis by (rule run_actions_content)
next
  case False
  with assms have "ev = [] \<and> lv' = lv"
    by (cases actions) (auto simp: run_plan_def split: if_splits)
  then show ?thesis by (simp add: extracted_of_def)
qed

lemma finish_turn_trace:
  assumes "finish_turn env lv ag x = (res, ag', x', ev)"
  shows "posts ev = [] \<and> execs ev = []"
  using assms take_screenshot_quiet[of env ag x] unfolding finish_turn_def
  by (auto split: if_splits prod.splits sum.splits)

lemma finish_turn_result:
  assumes "finish_turn env lv ag x = (Inr m, ag', x', ev)"
  shows "state ag' = IDLE"
    and "conversation_history ag'
           = conversation_history ag @ [\<lparr>role = ''assistant'', content = cm_content m\<rparr>]"
    and "task_ctx ag' = task_ctx ag"
    and "response_content lv = JStr s \<Longrightarrow>
           cm_content m = JStr (s @ extracted_suffix (extracted_data lv))"
  using assms unfolding finish_turn_def extracted_suffix_def assistant_def
  by (auto split: if_splits prod.splits sum.splits)

lemma finish_turn_raised:
  assumes "finish_turn env lv ag x = (Inl e, ag', x', ev)"
  shows "ag' = ag"
  using assms unfolding finish_turn_def
  by (auto split: if_splits prod.splits sum.splits)

lemma py_index_dict: "py_index p k = Inr v \<Longrightarrow> \<exists>kvs. p = JObj kvs"
  by (cases p) auto

lemma actE:
  assumes "act env u plan ag x = (res, ag', x', evs)"
  obtains
    (no_response) e where "py_index plan ''response'' = Inl e"
      "res = Inl e" "ag' = ag" "x' = x" "evs = []"
  | (loop_raised) resp actions lv e where "py_index plan ''response'' = Inr resp"
      "py_get plan ''actions'' = Inr actions"
      "run_plan env u actions
         \<lparr>response_content = resp, screenshot = None, extracted_data = []\<rparr> ag x
       = (Some e, lv, ag', x', evs)" "res = Inl e"
  | (finished) resp actions lv ag1 x1 ev1 ev2 where "py_index plan ''response'' = Inr resp"
      "py_get plan ''actions'' = Inr actions"
      "run_plan env u actions
         \<lparr>response_content = resp, screenshot = None, extracted_data = []\<rparr> ag x
       = (None, lv, ag1, x1, ev1)"
      "finish_turn env lv ag1 x1 = (res, ag', x', ev2)" "evs = ev1 @ ev2"
proof (cases "py_index plan ''response''")
  case (Inl e)
  with assms show thesis by (intro no_response[of e]) (simp_all add: act_def)
next
  case (Inr resp)
  then obtain kvs where kvs: "plan = JObj kvs" using py_index_dict by blast
  then obtain actions where actions: "py_get plan ''actions'' = Inr actions" by simp
  obtain r lv ag1 x1 ev1 where
    loop: "run_plan env u actions
             \<lparr>response_content = resp, screenshot = None, extracted_data = []\<rparr> ag x
           = (r, lv, ag1, x1, ev1)"
    by (metis prod_cases5)
  show thesis
  proof (cases r)
    case (Some e)
    with assms Inr actions loop show thesis
      by (intro loop_raised[of resp actions e lv]) (simp_all add: act_def)
  next
    case None
    obtain r2 ag2 x2 ev2 where fin: "finish_turn env lv ag1 x1 = (r2, ag2, x2, ev2)"
      by (metis prod_cases4)
    with assms Inr actions loop None show thesis
      by (intro finished[of resp actions lv ag1 x1 ev1 ev2]) (simp_all add: act_def)
  qed
qed

lemma plan_and_actE:
  assumes "plan_and_act env u ag x = (res, ag', x', evs)"
  obtains
    (analysis_raised) e ev1 where
      "analyze_intent env u (conversation_history ag) x = (Inl e, x', ev1)"
      "res = Inl e" "ag' = ag\<lparr>state := THINKING\<rparr>" "evs = ev1"
  | (not_dict) plan ev1 e where
      "analyze_intent env u (conversation_history ag) x = (Inr plan, x', ev1)"
      "py_get plan ''requires_info'' = Inl e"
      "res = Inl e" "ag' = ag\<lparr>state := THINKING\<rparr>" "evs = ev1"
  | (needs_info) plan ev1 req where
      "analyze_intent env u (conversation_history ag) x = (Inr plan, x', ev1)"
      "py_get plan ''requires_info'' = Inr req" "truthy req"
      "res = (case py_index plan ''response'' of
                Inl e \<Rightarrow> Inl e | Inr resp \<Rightarrow> Inr (assistant resp None))"
      "ag' = ag\<lparr>state := WAITING_FOR_INPUT\<rparr>" "evs = ev1"
  | (acted) plan x1 ev1 req ev2 where
      "analyze_intent env u (conversation_history ag) x = (Inr plan, x1, ev1)"
      "py_get plan ''requires_info'' = Inr req" "\<not> truthy req"
      "act env u plan (ag\<lparr>state := ACTING\<rparr>) x1 = (res, ag', x', ev2)"
      "evs = ev1 @ ev2"
proof -
  obtain r x1 ev1 where an0: "analyze_intent env u (conversation_history ag) x = (r, x1, ev1)"
    by (metis prod_cases3)
  show thesis
  proof (cases r)
    case (Inl e)
    with assms an0 show thesis
      by (intro analysis_raised[of e ev1]) (simp_all add: plan_and_act_def)
  next
    case (Inr plan)
    with an0 have an: "analyze_intent env u (conversation_history ag) x = (Inr plan, x1, ev1)"
      by simp
    show thesis
    proof (cases "py_get plan ''requires_info''")
      case (Inl e)
      with assms an show thesis
        by (intro not_dict[of plan ev1 e]) (simp_all add: plan_and_act_def)
    next
      case req: (Inr req)
      show thesis
      proof (cases "truthy req")
        case True
        with assms an req show thesis
          by (intro needs_info[of plan ev1 req])
             (auto simp add: plan_and_act_def split: sum.splits)
      next
        case False
        obtain r2 ag2 x2 ev2 where
          a: "act env u plan (ag\<lparr>state := ACTING\<rparr>) x1 = (r2, ag2, x2, ev2)"
          by (metis prod_cases4)
        with assms an req False show thesis
          by (intro acted[of plan x1 ev1 req ev2]) (simp_all add: plan_and_act_def)
      qed
    qed
  qed
qed

lemma process_user_inputE:
  assumes "process_user_input env u ag0 x = (res, ag', x', evs)"
  obtains
    (no_credentials) "mentions_send_email u" "\<not> has_credentials (task_ctx ag0)"
      "res = Inr (assistant (JStr credentials_prompt) None)"
      "ag' = ag0\<lparr>conversation_history := conversation_history ag0 @ [user_turn u],
                  state := WAITING_FOR_INPUT\<rparr>"
      "x' = x" "evs = []"
  | (no_details) "mentions_send_email u" "has_credentials (task_ctx ag0)"
      "res = Inr (assistant (JStr details_prompt) None)"
      "ag' = ag0\<lparr>conversation_history := conversation_history ag0 @ [user_turn u],
                  state := WAITING_FOR_INPUT\<rparr>"
      "x' = x" "evs = []"
  | (planned) ag where "plan_and_act env u ag x = (res, ag', x', evs)"
      "conversation_history ag = conversation_history ag0 @ [user_turn u]"
      "task_ctx ag = turn_context env u (task_ctx ag0)"
      "page_present ag = page_present ag0" "is_initialized ag = is_initialized ag0"
      "mentions_send_email u \<longrightarrow> has_credentials (task_ctx ag0)"
proof (cases "mentions_send_email u")
  case False
  with assms show thesis
    by (intro planned[of "ag0\<lparr>conversation_history := conversation_history ag0 @ [user_turn u]\<rparr>"])
       (simp_all add: process_user_input_def user_turn_def turn_context_def)
next
  case True
  show thesis
  proof (cases "has_credentials (task_ctx ag0)")
    case False
    with assms True show thesis
      by (intro no_credentials) (simp_all add: process_user_input_def user_turn_def turn_context_def)
  next
    case creds: True
    show thesis
    proof (cases "\<exists>r s b. re_recipient env u = Some r \<and> re_subject env u = Some s \<and> re_body env u = Some b")
      case False
      with assms True creds show thesis
        by (intro no_details) (auto simp add: process_user_input_def user_turn_def Let_def split: option.splits)
    next
      case yes: True
      then obtain r s b where "re_recipient env u = Some r" "re_subject env u = Some s" "re_body env u = Some b"
        by blast
      with assms True creds show thesis
        by (intro planned[of "ag0\<lparr>conversation_history := conversation_history ag0 @ [user_turn u],
                     task_ctx := (task_ctx ag0)\<lparr>email_details :=
                        Some [(''recipient'', r), (''subject'', s), (''body'', b)]\<rparr>\<rparr>"])
          (simp_all add: process_user_input_def user_turn_def turn_context_def)
    qed
  qed
qed

lemma act_trace:
  assumes "act env u plan ag x = (res, ag', x', evs)"
  shows "posts evs = [] \<and> fail_fast (execs evs)"
  using assms
proof (cases rule: actE)
  case (no_response e)
  then show ?thesis by simp
next
  case (loop_raised resp actions lv e)
  then show ?thesis using run_plan_trace[OF loop_raised(3)] by simp
next
  case (finished resp actions lv ag1 x1 ev1 ev2)
  then show ?thesis
    using run_plan_trace[OF finished(3)] finish_turn_trace[OF finished(4)] by simp
qed

lemma act_prefix:
  assumes "act env u plan ag x = (res, ag', x', evs)"
    and "py_get plan ''actions'' = Inr actions"
  shows "map (Inr \<circ> fst) (execs evs)
           = map (prepare_action u (task_ctx ag)) (take (length (execs evs)) (steps_of actions))"
  using assms(1)
proof (cases rule: actE)
  case (no_response e)
  then show ?thesis by simp
next
  case (loop_raised resp actions' lv e)
  then show ?thesis using run_plan_prefix[OF loop_raised(3)] assms(2) by simp
next
  case (finished resp actions' lv ag1 x1 ev1 ev2)
  then show ?thesis
    using run_plan_prefix[OF finished(3)] finish_turn_trace[OF finished(4)] assms(2) by simp
qed

lemma act_result:
  assumes "act env u plan ag x = (Inr m, ag', x', evs)"
  shows "state ag' = IDLE \<and> task_ctx ag' = task_ctx ag
         \<and> conversation_history ag'
             = conversation_history ag @ [\<lparr>role = ''assistant'', content = cm_content m\<rparr>]
         \<and> (\<forall>r0. py_index plan ''response'' = Inr (JStr r0) \<longrightarrow>
               cm_content m = JStr (r0 @ concat (map (line env) (execs evs))
                                      @ extracted_suffix (extracted_of (execs evs))))"
  using assms
proof (cases rule: actE)
  case (no_response e)
  then show ?thesis by simp
next
  case (loop_raised resp actions lv e)
  then show ?thesis by simp
next
  case (finished resp actions lv ag1 x1 ev1 ev2)
  note fin = finish_turn_result[OF finished(4)]
  note loop = run_plan_trace[OF finished(3)] run_plan_content[OF finished(3)]
  have ex: "execs evs = execs ev1"
    using finished(5) finish_turn_trace[OF finished(4)] by simp
  have "state ag' = IDLE" by (rule fin(1))
  moreover have "task_ctx ag' = task_ctx ag"
    using fin(3) loop(1) by (simp add: same_agent_def)
  moreover have "conversation_history ag'
             = conversation_history ag @ [\<lparr>role = ''assistant'', content = cm_content m\<rparr>]"
    using fin(2) loop(1) by (simp add: same_agent_def)
  moreover have "cm_content m = JStr (r0 @ concat (map (line env) (execs evs))
                                      @ extracted_suffix (extracted_of (execs evs)))"
    if "py_index plan ''response'' = Inr (JStr r0)" for r0
  proof -
    from that finished(1) have "resp = JStr r0" by simp
    with loop(2) have lv: "response_content lv = JStr (r0 @ concat (map (line env) (execs ev1)))"
      "extracted_data lv = extracted_of (execs ev1)"
      by simp_all
    from fin(4)[OF lv(1)] show ?thesis by (simp add: lv(2) ex)
  qed
  ultimately show ?thesis by blast
qed

lemma user_turn_last5:
  "last5 (H @ [m]) = drop (length H - 4) H @ [m]"
  by (simp add: last5_def)

lemma plan_and_act_trace:
  assumes "plan_and_act env u ag x = (res, ag', x', evs)"
  shows "posts evs = [build_messages env u (conversation_history ag)] \<and> fail_fast (execs evs)"
  using assms
proof (cases rule: plan_and_actE)
  case (analysis_raised e ev1)
  then show ?thesis using analyze_intent_trace[OF analysis_raised(1)] by simp
next
  case (not_dict plan ev1 e)
  then show ?thesis using analyze_intent_trace[OF not_dict(1)] by simp
next
  case (needs_info plan ev1 req)
  then show ?thesis using analyze_intent_trace[OF needs_info(1)] by simp
next
  case (acted plan x1 ev1 req ev2)
  then show ?thesis using analyze_intent_trace[OF acted(1)] act_trace[OF acted(4)] by simp
qed

lemma turn_trace:
  assumes "process_user_input env u ag x = (res, ag', x', evs)"
  shows "(posts evs = [] \<and> execs evs = [] \<or>
          posts evs = [build_messages env u (conversation_history ag @ [user_turn u])])
         \<and> fail_fast (execs evs)"
  using assms
proof (cases rule: process_user_inputE)
  case no_credentials
  then show ?thesis by simp
next
  case no_details
  then show ?thesis by simp
next
  case (planned ag2)
  then show ?thesis using plan_and_act_trace[OF planned(1)] by simp
qed

lemma turn_history:
  assumes "process_user_input env u ag x = (res, ag', x', evs)"
  shows "\<exists>rest. conversation_history ag' = conversation_history ag @ user_turn u # rest"
  using assms
proof (cases rule: process_user_inputE)
  case no_credentials
  then show ?thesis by simp
next
  case no_details
  then show ?thesis by simp
next
  case (planned ag2)
  from planned(1) show ?thesis
  proof (cases rule: plan_and_actE)
    case (analysis_raised e ev1)
    then show ?thesis using planned(2) by simp
  next
    case (not_dict plan ev1 e)
    then show ?thesis using planned(2) by simp
  next
    case (needs_info plan ev1 req)
    then show ?thesis using planned(2) by simp
  next
    case (acted plan x1 ev1 req ev2)
    from acted(4) show ?thesis
    proof (cases rule: actE)
      case (no_response e)
      then show ?thesis using planned(2) by simp
    next
      case (loop_raised resp actions lv e)
      then show ?thesis using planned(2) run_plan_trace[OF loop_raised(3)]
        by (simp add: same_agent_def)
    next
      case (finished resp actions lv ag1 x1 ev1 ev2)
      show ?thesis
      proof (cases res)
        case (Inl e)
        then show ?thesis
          using finished planned(2) run_plan_trace[OF finished(3)] finish_turn_raised[of env lv ag1 x1 e ag' x' ev2]
          by (simp add: same_agent_def)
      next
        case (Inr m)
        then show ?thesis
          using finished planned(2) run_plan_trace[OF finished(3)] finish_turn_result(2)[of env lv ag1 x1 m ag' x' ev2]
          by (simp add: same_agent_def)
      qed
    qed
  qed
qed

lemma calls_set:
  assumes "calls env cs x = (r, x', ev)"
  shows "set ev \<subseteq> BCall ` set cs"
proof -
  from calls_events[of env cs x] assms obtain n where "ev = map BCall (take n cs)" by auto
  then show ?thesis by (auto dest: in_set_takeD)
qed


lemma calls_paced:
  assumes "calls env cs x = (r, x', ev)"
  shows "(\<forall>c\<in>set cs. paced (BCall c)) \<longrightarrow> (\<forall>e\<in>set ev. paced e)"
  using calls_set[OF assms] by auto

lemma try_paced:
  assumes "execute_action_try env a ag x = (r, ag', x', ev)" and "delay a = 1"
  shows "\<forall>e\<in>set ev. paced e"
  using assms unfolding execute_action_try_def
  by (auto simp: py_int_def split: if_splits prod.splits option.splits sum.splits bool.splits
           dest!: calls_paced)

lemma execute_action_paced:
  assumes "execute_action env a ag x = (r, ag', x', ev)" and "delay a = 1"
  shows "\<forall>e\<in>set ev. paced e"
  using assms try_paced[of env a ag x]
  unfolding execute_action_def execute_action_run_def call_def
  by (auto split: if_splits prod.splits option.splits sum.splits)

lemma take_screenshot_paced:
  assumes "take_screenshot env ag x = (s, x', ev)"
  shows "\<forall>e\<in>set ev. paced e"
  using assms unfolding take_screenshot_def
  by (auto split: if_splits prod.splits sum.splits)

lemma step_ok_paced:
  assumes "step_ok env a res lv ag x = Inr (lv', x', ev)" and "delay a = 1"
  shows "\<forall>e\<in>set ev. paced e"
  using assms take_screenshot_paced[of env ag x] unfolding step_ok_def
  by (auto split: if_splits prod.splits sum.splits)

lemma substitute_delay:
  assumes "substitute u tc a = Inr a'"
  shows "delay a' = delay a"
  using assms unfolding substitute_def set_text_def detail_def
  by (auto split: option.splits if_splits sum.splits)

lemma make_action_delay:
  assumes "make_action ad = Inr a"
  shows "delay a = 1"
  using assms unfolding make_action_def
  by (auto split: sum.splits json.splits)

lemma prepare_action_delay:
  assumes "prepare_action u tc ad = Inr a"
  shows "delay a = 1"
  using assms make_action_delay substitute_delay unfolding prepare_action_def
  by (fastforce split: sum.splits)

lemma run_actions_paced:
  assumes "run_actions env u ads lv ag x = (r, lv', ag', x', ev)"
  shows "\<forall>e\<in>set ev. paced e"
  using assms
proof (induction ads arbitrary: lv ag x r lv' ag' x' ev)
  case Nil
  then show ?case by simp
next
  case (Cons ad rest)
  from Cons.prems show ?case
  proof (cases rule: run_actions_ConsE)
    case (unbuilt e)
    then show ?thesis by simp
  next
    case (failed a res ag1)
    then show ?thesis
      using execute_action_paced[OF failed(2) prepare_action_delay[OF failed(1)]] by simp
  next
    case (raised a res e)
    then show ?thesis
      using execute_action_paced[OF raised(2) prepare_action_delay[OF raised(1)]] by simp
  next
    case (went_on a res ag1 x1 ev1 lv1 x2 ev2 ev3)
    note d = prepare_action_delay[OF went_on(1)]
    show ?thesis
      using went_on(5) Cons.IH[OF went_on(4)] execute_action_paced[OF went_on(2) d]
        step_ok_paced[OF went_on(3) d]
      by auto
  qed
qed

lemma run_plan_paced:
  assumes "run_plan env u actions lv ag x = (r, lv', ag', x', ev)"
  shows "\<forall>e\<in>set ev. paced e"
proof (cases "\<exists>xs. actions = JArr xs \<and> xs \<noteq> []")
  case True
  then obtain xs where "actions = JArr xs" "xs \<noteq> []" by blast
  with assms have "run_actions env u xs lv ag x = (r, lv', ag', x', ev)"
    by (simp add: run_plan_def)
  then show ?thesis by (rule run_actions_paced)
next
  case False
  with assms have "ev = []"
    by (cases actions) (auto simp: run_plan_def split: if_splits)
  then show ?thesis by simp
qed

lemma finish_turn_paced:
  assumes "finish_turn env lv ag x = (res, ag', x', ev)"
  shows "\<forall>e\<in>set ev. paced e"
  using assms take_screenshot_paced[of env ag x] unfolding finish_turn_def
  by (auto split: if_splits prod.splits sum.splits)

lemma turn_paced:
  assumes "process_user_input env u ag x = (res, ag', x', evs)"
  shows "\<forall>e\<in>set evs. paced e"
  using assms
proof (cases rule: process_user_inputE)
  case no_credentials
  then show ?thesis by simp
next
  case no_details
  then show ?thesis by simp
next
  case (planned ag2)
  from planned(1) show ?thesis
  proof (cases rule: plan_and_actE)
    case (analysis_raised e ev1)
    then show ?thesis using analyze_intent_trace[OF analysis_raised(1)] by simp
  next
    case (not_dict plan ev1 e)
    then show ?thesis using analyze_intent_trace[OF not_dict(1)] by simp
  next
    case (needs_info plan ev1 req)
    then show ?thesis using analyze_intent_trace[OF needs_info(1)] by simp
  next
    case (acted plan x1 ev1 req ev2)
    from acted(4) have "\<forall>e\<in>set ev2. paced e"
    proof (cases rule: actE)
      case (no_response e)
      then show ?thesis by simp
    next
      case (loop_raised resp actions lv e)
      then show ?thesis using run_plan_paced[OF loop_raised(3)] by simp
    next
      case (finished resp actions lv ag1 x1 ev1 ev2)
      then show ?thesis
        using run_plan_paced[OF finished(3)] finish_turn_paced[OF finished(4)] by auto
    qed
    then show ?thesis using acted(5) analyze_intent_trace[OF acted(1)] by auto
  qed
qed

lemma turn_prefix:
  assumes turn: "process_user_input env u ag x = (res, ag', x', evs)"
    and acts: "py_get (plan_of env u ag x) ''actions'' = Inr actions"
  shows "map (Inr \<circ> fst) (execs evs)
           = map (prepare_action u (turn_context env u (task_ctx ag)))
               (take (length (execs evs)) (steps_of actions))"
  using turn
proof (cases rule: process_user_inputE)
  case no_credentials
  then show ?thesis by simp
next
  case no_details
  then show ?thesis by simp
next
  case (planned ag2)
  from planned(1) show ?thesis
  proof (cases rule: plan_and_actE)
    case (analysis_raised e ev1)
    then show ?thesis using analyze_intent_trace[OF analysis_raised(1)] by simp
  next
    case (not_dict plan ev1 e)
    then show ?thesis using analyze_intent_trace[OF not_dict(1)] by simp
  next
    case (needs_info plan ev1 req)
    then show ?thesis using analyze_intent_trace[OF needs_info(1)] by simp
  next
    case (acted plan x1 ev1 req ev2)
    have "plan = plan_of env u ag x"
      using acted(1) planned(2) by (simp add: plan_of_def)
    with acts have "py_get plan ''actions'' = Inr actions" by simp
    from act_prefix[OF acted(4) this] show ?thesis
      using acted(5) analyze_intent_trace[OF acted(1)] planned(3) by simp
  qed
qed

lemma turn_content:
  assumes turn: "process_user_input env u ag x = (Inr m, ag', x', evs)"
    and asked: "posts evs \<noteq> []"
    and resp: "py_index (plan_of env u ag x) ''response'' = Inr (JStr r0)"
  shows "cm_content m = JStr (r0 @ concat (map (line env) (execs evs))
                                @ extracted_suffix (extracted_of (execs evs)))"
  using turn
proof (cases rule: process_user_inputE)
  case no_credentials
  then show ?thesis using asked by simp
next
  case no_details
  then show ?thesis using asked by simp
next
  case (planned ag2)
  from planned(1) show ?thesis
  proof (cases rule: plan_and_actE)
    case (analysis_raised e ev1)
    then show ?thesis by simp
  next
    case (not_dict plan ev1 e)
    then show ?thesis by simp
  next
    case (needs_info plan ev1 req)
    have "plan = plan_of env u ag x"
      using needs_info(1) planned(2) by (simp add: plan_of_def)
    with resp have "py_index plan ''response'' = Inr (JStr r0)" by simp
    then show ?thesis
      using needs_info analyze_intent_trace[OF needs_info(1)]
      by (simp add: assistant_def extracted_suffix_def extracted_of_def)
  next
    case (acted plan x1 ev1 req ev2)
    have "plan = plan_of env u ag x"
      using acted(1) planned(2) by (simp add: plan_of_def)
    with resp have "py_index plan ''response'' = Inr (JStr r0)" by simp
    with act_result[OF acted(4)] show ?thesis
      using acted(5) analyze_intent_trace[OF acted(1)] by simp
  qed
qed

lemma needs_info_turn:
  assumes turn: "process_user_input env u ag x = (res, ag', x', evs)"
    and plan: "analyze_intent env u (conversation_history ag @ [user_turn u]) x
                 = (Inr plan, x1, ev1)"
    and req: "py_get plan ''requires_info'' = Inr req" "truthy req"
  shows "execs evs = [] \<and> state ag' = WAITING_FOR_INPUT
         \<and> (posts evs \<noteq> [] \<longrightarrow>
              res = (case py_index plan ''response'' of
                       Inl e \<Rightarrow> Inl e | Inr resp \<Rightarrow> Inr (assistant resp None)))"
  using turn
proof (cases rule: process_user_inputE)
  case no_credentials
  then show ?thesis by simp
next
  case no_details
  then show ?thesis by simp
next
  case (planned ag2)
  from planned(1) show ?thesis
  proof (cases rule: plan_and_actE)
    case (analysis_raised e ev1')
    then show ?thesis using plan req planned(2) by simp
  next
    case (not_dict plan' ev1' e)
    then show ?thesis using plan req planned(2) by simp
  next
    case (needs_info plan' ev1' req')
    then show ?thesis
      using plan req planned(2) analyze_intent_trace[OF needs_info(1)] by simp
  next
    case (acted plan' x1' ev1' req' ev2)
    then show ?thesis using plan req planned(2) by simp
  qed
qed

lemma fail_fast_last:
  assumes "fail_fast es" and "k < length es" and "\<not> fst (snd (es ! k))"
  shows "length es = Suc k \<and> (\<forall>j<k. fst (snd (es ! j)))"
  using assms
proof (induction es arbitrary: k rule: fail_fast.induct)
  case 1
  then show ?case by simp
next
  case (2 a ok r es)
  show ?case
  proof (cases k)
    case 0
    with 2 show ?thesis by (simp split: if_splits)
  next
    case (Suc n)
    with 2 have ok: ok by (auto split: if_splits)
    with 2 Suc have "length es = Suc n \<and> (\<forall>j<n. fst (snd (es ! j)))" by simp
    then show ?thesis using Suc ok by (auto simp: less_Suc_eq_0_disj)
  qed
qed

lemma lines_until_failure:
  assumes "length es = Suc k" and "\<forall>j<k. fst (snd (es ! j))" and "\<not> fst (snd (es ! k))"
  shows "concat (map (line env) es)
           = concat (map (ok_line_of env) (take k es)) @ fail_line (snd (snd (es ! k)))"
    and "extracted_of es = extracted_of (take k es)"
proof -
  have es: "es = take k es @ [es ! k]"
    using assms(1) by (metis lessI take_Suc_conv_app_nth take_all order_refl)
  have oks: "\<forall>e\<in>set (take k es). fst (snd e)"
  proof
    fix e assume "e \<in> set (take k es)"
    then obtain i where "i < length (take k es)" "take k es ! i = e"
      by (auto simp: in_set_conv_nth)
    with assms(1,2) show "fst (snd e)" by auto
  qed
  have m: "map (line env) (take k es) = map (ok_line_of env) (take k es)"
    using oks by (auto simp: line_def ok_line_of_def split: prod.splits)
  have l: "line env (es ! k) = fail_line (snd (snd (es ! k)))"
    using assms(3) by (cases "es ! k") (auto simp: line_def)
  have "concat (map (line env) (take k es @ [es ! k]))
           = concat (map (ok_line_of env) (take k es)) @ fail_line (snd (snd (es ! k)))"
    by (simp add: m l)
  with es show "concat (map (line env) es)
           = concat (map (ok_line_of env) (take k es)) @ fail_line (snd (snd (es ! k)))"
    by simp
  have "extracted_of (take k es @ [es ! k]) = extracted_of (take k es)"
    using assms(3) by (cases "es ! k") (auto simp: extracted_of_def)
  with es show "extracted_of es = extracted_of (take k es)" by simp
qed

lemma turn_posts:
  "posts (events (process_user_input env u ag x))
     = (if short_circuit env u (task_ctx ag) then []
        else [build_messages env u (conversation_history ag @ [user_turn u])])"
proof -
  obtain res ag' x' evs where t: "process_user_input env u ag x = (res, ag', x', evs)"
    by (metis prod_cases4)
  from t show ?thesis
  proof (cases rule: process_user_inputE)
    case no_credentials
    then show ?thesis using t by (simp add: events_def short_circuit_def)
  next
    case no_details
    have "short_circuit env u (task_ctx ag)"
    proof (rule ccontr)
      assume "\<not> short_circuit env u (task_ctx ag)"
      with no_details(1,2) obtain r s b where
        "re_recipient env u = Some r" "re_subject env u = Some s" "re_body env u = Some b"
        by (auto simp: short_circuit_def)
      with no_details(1,2) t have "plan_and_act env u
          (ag\<lparr>conversation_history := conversation_history ag @ [user_turn u],
              task_ctx := (task_ctx ag)\<lparr>email_details :=
                 Some [(''recipient'', r), (''subject'', s), (''body'', b)]\<rparr>\<rparr>) x
          = (res, ag', x', evs)"
        by (simp add: process_user_input_def user_turn_def)
      from plan_and_act_trace[OF this] no_details(6) show False by simp
    qed
    then show ?thesis using t no_details by (simp add: events_def)
  next
    case (planned ag2)
    have "\<not> short_circuit env u (task_ctx ag)"
    proof
      assume sc: "short_circuit env u (task_ctx ag)"
      with planned(6) have "has_credentials (task_ctx ag)" "mentions_send_email u"
        by (auto simp: short_circuit_def)
      with sc t have "evs = []"
        by (auto simp: short_circuit_def process_user_input_def Let_def split: option.splits)
      with plan_and_act_trace[OF planned(1)] show False by simp
    qed
    then show ?thesis
      using t planned(2) plan_and_act_trace[OF planned(1)] by (simp add: events_def)
  qed
qed

lemma run_actions_genuine:
  assumes "run_actions env u ads lv ag x = (r, lv', ag', x', ev)"
  shows "\<forall>e\<in>set (execs ev). \<exists>ag0 x0. fst (execute_action env (fst e) ag0 x0) = snd e"
  using assms
proof (induction ads arbitrary: lv ag x r lv' ag' x' ev)
  case Nil
  then show ?case by simp
next
  case (Cons ad rest)
  from Cons.prems show ?case
  proof (cases rule: run_actions_ConsE)
    case (unbuilt e)
    then show ?thesis by simp
  next
    case (failed a res ag1)
    have "fst (execute_action env a ag x) = (False, res)" using failed(2) by simp
    then show ?thesis using execute_action_trace[OF failed(2)] by auto
  next
    case (raised a res e)
    have "fst (execute_action env a ag x) = (True, res)" using raised(2) by simp
    then show ?thesis using execute_action_trace[OF raised(2)] by auto
  next
    case (went_on a res ag1 x1 ev1 lv1 x2 ev2 ev3)
    have "fst (execute_action env a ag x) = (True, res)" using went_on(2) by simp
    then show ?thesis
      using went_on(5) Cons.IH[OF went_on(4)] execute_action_trace[OF went_on(2)]
        step_ok_quiet[OF went_on(3)]
      by auto
  qed
qed

lemma turn_genuine:
  assumes "process_user_input env u ag x = (res, ag', x', evs)"
  shows "\<forall>e\<in>set (execs evs). \<exists>ag0 x0. fst (execute_action env (fst e) ag0 x0) = snd e"
  using assms
proof (cases rule: process_user_inputE)
  case no_credentials
  then show ?thesis by simp
next
  case no_details
  then show ?thesis by simp
next
  case (planned ag2)
  from planned(1) show ?thesis
  proof (cases rule: plan_and_actE)
    case (analysis_raised e ev1)
    then show ?thesis using analyze_intent_trace[OF analysis_raised(1)] by simp
  next
    case (not_dict plan ev1 e)
    then show ?thesis using analyze_intent_trace[OF not_dict(1)] by simp
  next
    case (needs_info plan ev1 req)
    then show ?thesis using analyze_intent_trace[OF needs_info(1)] by simp
  next
    case (acted plan x1 ev1 req ev2)
    have loop: "\<forall>e\<in>set (execs ev). \<exists>ag0 x0. fst (execute_action env (fst e) ag0 x0) = snd e"
      if "run_plan env u actions lv ag3 x3 = (r, lv', ag4, x4, ev)"
      for actions lv ag3 x3 r lv' ag4 x4 ev
    proof (cases "\<exists>xs. actions = JArr xs \<and> xs \<noteq> []")
      case True
      then obtain xs where "actions = JArr xs" "xs \<noteq> []" by blast
      with that have "run_actions env u xs lv ag3 x3 = (r, lv', ag4, x4, ev)"
        by (simp add: run_plan_def)
      then show ?thesis by (rule run_actions_genuine)
    next
      case False
      with that have "ev = []"
        by (cases actions) (auto simp: run_plan_def split: if_splits)
      then show ?thesis by simp
    qed
    from acted(4) have "\<forall>e\<in>set (execs ev2). \<exists>ag0 x0. fst (execute_action env (fst e) ag0 x0) = snd e"
    proof (cases rule: actE)
      case (no_response e)
      then show ?thesis by simp
    next
      case (loop_raised resp actions lv e)
      then show ?thesis using loop[OF loop_raised(3)] by simp
    next
      case (finished resp actions lv ag1 x1 ev1 ev2)
      then show ?thesis
        using loop[OF finished(3)] finish_turn_trace[OF finished(4)] by simp
    qed
    then show ?thesis using acted(5) analyze_intent_trace[OF acted(1)] by simp
  qed
qed

lemma type_result:
  assumes "fst (execute_action env a ag x) = (True, r)" and "action_type a = JStr ''type''"
  shows "r = ''Typed '' @ quote @ py_str env (action_text a) @ quote @ '' into ''
             @ py_str env (target a)"
  using assms
  by (auto simp: execute_action_def execute_action_run_def execute_action_try_def
           split: prod.splits option.splits sum.splits if_splits)

lemma starts_with_self: "starts_with p (p @ b)"
  by (induction p) auto

lemma py_in_mid: "py_in p (a @ p @ b)"
proof (induction a)
  case Nil
  show ?case
  proof (cases "p @ b")
    case Nil
    then show ?thesis by simp
  next
    case (Cons c cs)
    have "starts_with p (p @ b)" by (rule starts_with_self)
    with Cons show ?thesis by simp
  qed
next
  case (Cons y a)
  then show ?case by simp
qed

lemma turn_appended:
  assumes turn: "process_user_input env u ag x = (Inr m, ag', x', evs)"
    and asked: "posts evs \<noteq> []"
    and req: "py_get (plan_of env u ag x) ''requires_info'' = Inr req" "\<not> truthy req"
  shows "conversation_history ag'
           = conversation_history ag
             @ [user_turn u, \<lparr>role = ''assistant'', content = cm_content m\<rparr>]"
  using turn
proof (cases rule: process_user_inputE)
  case no_credentials
  then show ?thesis using asked by simp
next
  case no_details
  then show ?thesis using asked by simp
next
  case (planned ag2)
  from planned(1) show ?thesis
  proof (cases rule: plan_and_actE)
    case (analysis_raised e ev1)
    then show ?thesis by simp
  next
    case (not_dict plan ev1 e)
    then show ?thesis by simp
  next
    case (needs_info plan ev1 req')
    have "plan = plan_of env u ag x"
      using needs_info(1) planned(2) by (simp add: plan_of_def)
    with req needs_info(2,3) show ?thesis by simp
  next
    case (acted plan x1 ev1 req' ev2)
    from act_result[OF acted(4)] planned(2) show ?thesis by simp
  qed
qed

lemma next_request:
  assumes h: "conversation_history ag1 = H @ [e]"
    and asked: "posts (events (process_user_input env u2 ag1 x2)) \<noteq> []"
  shows "e \<in> set (concat (posts (events (process_user_input env u2 ag1 x2))))"
proof -
  from asked have p: "posts (events (process_user_input env u2 ag1 x2))
          = [build_messages env u2 (conversation_history ag1 @ [user_turn u2])]"
    by (simp add: turn_posts split: if_splits)
  have "length (H @ [e]) - 4 \<le> length H" by simp
  then have mem: "e \<in> set (drop (length (H @ [e]) - 4) (H @ [e]))" by simp
  have l: "last5 ((H @ [e]) @ [user_turn u2])
             = drop (length (H @ [e]) - 4) (H @ [e]) @ [user_turn u2]"
    by (rule user_turn_last5)
  have "e \<in> set (last5 ((H @ [e]) @ [user_turn u2]))"
    unfolding l using mem by simp
  then show ?thesis
    unfolding p by (simp add: build_messages_def h)
qed

lemma typed_text_held:
  assumes e: "e \<in> set es" and ok: "fst (snd e)"
    and r: "snd (snd e) = ''Typed '' @ quote @ V @ t"
  shows "py_in V (r0 @ concat (map (line env) es) @ sfx)"
proof -
  from e obtain ys zs where es: "es = ys @ e # zs" by (auto dest: split_list)
  obtain a where l: "line env e = a @ snd (snd e)"
    using ok by (cases e) (auto simp: line_def ok_line_def)
  have "r0 @ concat (map (line env) es) @ sfx
          = (r0 @ concat (map (line env) ys) @ a @ ''Typed '' @ quote) @ V
            @ (t @ concat (map (line env) zs) @ sfx)"
    by (simp add: es l r)
  then show ?thesis using py_in_mid by metis
qed

section \<open>Counting the failure mark\<close>

lemma starts_with_sep:
  "c \<notin> set p \<Longrightarrow> starts_with p (a @ c # b) = starts_with p a"
proof (induction p arbitrary: a)
  case Nil
  then show ?case by simp
next
  case (Cons q qs)
  then show ?case by (cases a) auto
qed

lemma count_sub_sep:
  assumes "c \<notin> set p" and "p \<noteq> []"
  shows "count_sub p (a @ c # b) = count_sub p a + count_sub p b"
proof (induction a)
  case Nil
  from assms show ?case by (cases p) auto
next
  case (Cons y a)
  have "starts_with p ((y # a) @ c # b) = starts_with p (y # a)"
    using assms(1) by (rule starts_with_sep)
  with Cons show ?case by simp
qed

lemma count_sub_hd:
  assumes "c \<notin> set p" and "p \<noteq> []"
  shows "count_sub p (c # b) = count_sub p b"
  using count_sub_sep[OF assms, of "[]" b] by simp

lemma count_sub_append_r:
  assumes "b = [] \<or> hd b \<notin> set p" and "p \<noteq> []"
  shows "count_sub p (a @ b) = count_sub p a + count_sub p b"
proof (cases b)
  case Nil
  then show ?thesis by simp
next
  case (Cons c b')
  with assms have c: "c \<notin> set p" by simp
  show ?thesis
    using count_sub_sep[OF c assms(2), of a b'] count_sub_hd[OF c assms(2), of b'] Cons
    by simp
qed

lemma count_sub_append_l:
  assumes "a = [] \<or> last a \<notin> set p" and "p \<noteq> []"
  shows "count_sub p (a @ b) = count_sub p a + count_sub p b"
proof (cases a rule: rev_cases)
  case Nil
  then show ?thesis by simp
next
  case (snoc a' c)
  with assms have c: "c \<notin> set p" by simp
  show ?thesis
    using count_sub_sep[OF c assms(2), of a' b] count_sub_sep[OF c assms(2), of a' "[]"] snoc
    by simp
qed

lemma cross_set: "set cross = {CHR 0xE2, CHR 0x9D, CHR 0x8C}" and cross_ne: "cross \<noteq> []"
  by (auto simp: cross_def)

lemma count_ok_line:
  "count_sub cross (ok_line env a r)
     = count_sub cross (py_str env (description a)) + count_sub cross r"
proof -
  have 1: "count_sub cross ([CHR 0x0A, CHR 0x0A, CHR 0xE2, CHR 0x9C, CHR 0x85] @ CHR '' '' #
              (py_str env (description a) @ '': '' @ r))
           = count_sub cross [CHR 0x0A, CHR 0x0A, CHR 0xE2, CHR 0x9C, CHR 0x85]
             + count_sub cross (py_str env (description a) @ '': '' @ r)"
    by (rule count_sub_sep) (simp_all add: cross_def)
  have 2: "count_sub cross [CHR 0x0A, CHR 0x0A, CHR 0xE2, CHR 0x9C, CHR 0x85] = 0"
    by (simp add: cross_def)
  have 3: "count_sub cross (py_str env (description a) @ CHR '':'' # ('' '' @ r))
           = count_sub cross (py_str env (description a)) + count_sub cross ('' '' @ r)"
    by (rule count_sub_sep) (simp_all add: cross_def)
  have 4: "count_sub cross (CHR '' '' # r) = count_sub cross r"
    by (rule count_sub_hd) (simp_all add: cross_def)
  show ?thesis using 1 2 3 4 by (simp add: ok_line_def)
qed

lemma count_fail_line:
  "count_sub cross (fail_line r) = 1 + count_sub cross r"
proof -
  have 1: "count_sub cross (([CHR 0x0A, CHR 0x0A] @ cross) @ CHR '' '' # (''Failed: '' @ r))
           = count_sub cross ([CHR 0x0A, CHR 0x0A] @ cross) + count_sub cross (''Failed: '' @ r)"
    by (rule count_sub_sep) (simp_all add: cross_def)
  have 2: "count_sub cross ([CHR 0x0A, CHR 0x0A] @ cross) = 1"
    by (simp add: cross_def)
  have 3: "count_sub cross (''Failed:'' @ CHR '' '' # r) = count_sub cross ''Failed:'' + count_sub cross r"
    by (rule count_sub_sep) (simp_all add: cross_def)
  have 4: "count_sub cross ''Failed:'' = 0"
    by (simp add: cross_def)
  show ?thesis using 1 2 3 4 by (simp add: fail_line_def)
qed

lemma count_join_nl:
  assumes "\<forall>s\<in>set xs. marker_free s"
  shows "count_sub cross (join_nl xs) = 0"
  using assms
proof (induction xs rule: join_nl.induct)
  case 1
  then show ?case by simp
next
  case (2 x)
  then show ?case by (simp add: marker_free_def)
next
  case (3 x y ys)
  have "count_sub cross (x @ CHR 0x0A # join_nl (y # ys))
          = count_sub cross x + count_sub cross (join_nl (y # ys))"
    by (rule count_sub_sep) (simp_all add: cross_def)
  with 3 show ?case by (simp add: marker_free_def)
qed

lemma count_extracted_suffix:
  assumes "\<forall>s\<in>set xs. marker_free s"
  shows "count_sub cross (extracted_suffix xs) = 0"
proof (cases "xs = []")
  case True
  then show ?thesis by (simp add: extracted_suffix_def)
next
  case False
  have "count_sub cross (([CHR 0x0A, CHR 0x0A, CHR 0xF0, CHR 0x9F, CHR 0x93, CHR 0x8B]
                           @ '' Extracted Data:'') @ CHR 0x0A # join_nl xs)
          = count_sub cross ([CHR 0x0A, CHR 0x0A, CHR 0xF0, CHR 0x9F, CHR 0x93, CHR 0x8B]
                               @ '' Extracted Data:'')
            + count_sub cross (join_nl xs)"
    by (rule count_sub_sep) (simp_all add: cross_def)
  moreover have "count_sub cross ([CHR 0x0A, CHR 0x0A, CHR 0xF0, CHR 0x9F, CHR 0x93, CHR 0x8B]
                               @ '' Extracted Data:'') = 0"
    by (simp add: cross_def)
  ultimately show ?thesis
    using False count_join_nl[OF assms] by (simp add: extracted_suffix_def extracted_block_def)
qed

lemma hd_extracted_suffix: "extracted_suffix xs = [] \<or> hd (extracted_suffix xs) \<notin> set cross"
  by (simp add: extracted_suffix_def extracted_block_def cross_def)

lemma hd_fail_line: "hd (fail_line r @ t) \<notin> set cross"
  by (simp add: fail_line_def cross_def)

lemma hd_ok_line: "hd (ok_line env a r @ t) \<notin> set cross"
  by (simp add: ok_line_def cross_def)

lemma count_ok_lines:
  assumes "\<forall>e\<in>set es. marker_free (py_str env (description (fst e))) \<and> marker_free (snd (snd e))"
    and "t \<noteq> []" and "hd t \<notin> set cross"
  shows "count_sub cross (concat (map (ok_line_of env) es) @ t) = count_sub cross t"
    and "hd (concat (map (ok_line_of env) es) @ t) \<notin> set cross"
  using assms(1)
proof (induction es)
  case Nil
  { case 1 show ?case by simp }
  { case 2 show ?case using assms(3) by simp }
next
  case (Cons e es)
  { case 1
    let ?rest = "concat (map (ok_line_of env) es) @ t"
    from 1 have ih: "count_sub cross ?rest = count_sub cross t" "hd ?rest \<notin> set cross"
      using Cons.IH by simp_all
    have "count_sub cross (ok_line_of env e @ ?rest)
            = count_sub cross (ok_line_of env e) + count_sub cross ?rest"
      using ih(2) by (intro count_sub_append_r) (simp_all add: cross_ne)
    moreover have "count_sub cross (ok_line_of env e) = 0"
      using 1 by (simp add: ok_line_of_def count_ok_line marker_free_def)
    ultimately show ?case using ih(1) by simp }
  { case 2
    show ?case using hd_ok_line[of env "fst e" "snd (snd e)"] by (simp add: ok_line_of_def) }
qed

lemma count_failed_reply:
  assumes clean: "marker_free r0"
      "\<forall>e\<in>set es. marker_free (py_str env (description (fst e))) \<and> marker_free (snd (snd e))"
      "marker_free rk" "\<forall>s\<in>set xs. marker_free s"
  shows "count_sub cross (r0 @ concat (map (ok_line_of env) es) @ fail_line rk
                             @ extracted_suffix xs) = 1"
proof -
  let ?t = "fail_line rk @ extracted_suffix xs"
  have t: "?t \<noteq> []" "hd ?t \<notin> set cross"
    using hd_fail_line[of rk "extracted_suffix xs"] by (simp_all add: fail_line_def)
  have "count_sub cross ?t = count_sub cross (fail_line rk) + count_sub cross (extracted_suffix xs)"
    using hd_extracted_suffix[of xs] by (intro count_sub_append_r) (simp_all add: cross_ne)
  then have ct: "count_sub cross ?t = 1"
    using clean(3) count_extracted_suffix[OF clean(4)] by (simp add: count_fail_line marker_free_def)
  note ls = count_ok_lines[OF clean(2) t]
  have "count_sub cross (r0 @ (concat (map (ok_line_of env) es) @ ?t))
          = count_sub cross r0 + count_sub cross (concat (map (ok_line_of env) es) @ ?t)"
    using ls(2) by (intro count_sub_append_r) (simp_all add: cross_ne)
  then show ?thesis using ls(1) ct clean(1) by (simp add: marker_free_def)
qed

lemma extracted_of_results: "set (extracted_of es) \<subseteq> (\<lambda>e. snd (snd e)) ` set es"
  by (force simp: extracted_of_def)

section \<open>The claims\<close>

text \<open>
  C8.  When the utterance contains \<open>send email\<close> and no email credentials are stored, the
  turn ends in \<open>WAITING_FOR_INPUT\<close> with the reply of line 382, which asks for the Gmail
  address and password, and nothing is sent to the Reasoner during the turn: the trace of
  the turn is empty, so it holds no \<open>Post\<close>.
\<close>

theorem send_email_without_credentials:
  assumes "mentions_send_email u" and "\<not> has_credentials (task_ctx ag)"
  shows "process_user_input env u ag x
           = (Inr \<lparr>cm_role = ''assistant'',
                   cm_content = JStr
                     ''Please provide your Gmail address and password (use a test account only) to proceed with sending an email.'',
                   cm_screenshot = None\<rparr>,
              ag\<lparr>conversation_history :=
                    conversation_history ag @ [\<lparr>role = ''user'', content = JStr u\<rparr>],
                  state := WAITING_FOR_INPUT\<rparr>, x, [])
         \<and> posts (events (process_user_input env u ag x)) = []"
  using assms
  by (simp add: process_user_input_def events_def assistant_def credentials_prompt_def)

theorem send_email_without_credentials_witness:
  "mentions_send_email ''Send email to a@b.com''
   \<and> \<not> has_credentials (task_ctx (fresh_agent None))
   \<and> process_user_input (demo_env [] None (\<lambda>c. None)) ''Send email to a@b.com''
         (fresh_agent None) ()
       = (Inr \<lparr>cm_role = ''assistant'',
               cm_content = JStr
                 ''Please provide your Gmail address and password (use a test account only) to proceed with sending an email.'',
               cm_screenshot = None\<rparr>,
          \<lparr>state = WAITING_FOR_INPUT,
           conversation_history = [\<lparr>role = ''user'', content = JStr ''Send email to a@b.com''\<rparr>],
           task_ctx = \<lparr>email_credentials = None, email_details = None\<rparr>,
           page_present = True, is_initialized = True, current_frame = None\<rparr>, (), [])
   \<and> posts (events (process_user_input (demo_env [] None (\<lambda>c. None))
         ''Send email to a@b.com'' (fresh_agent None) ())) = []"
proof -
  have m: "mentions_send_email ''Send email to a@b.com''" by code_simp
  have c: "\<not> has_credentials (task_ctx (fresh_agent None))"
    by (simp add: has_credentials_def fresh_agent_def)
  show ?thesis
    using send_email_without_credentials[OF m c, of "demo_env [] None (\<lambda>c. None)" "()"] m c
    by (simp add: fresh_agent_def events_def)
qed

text \<open>
  C3.  When the plan the Reasoner returned for the turn has a non-empty \<open>requires_info\<close>
  (any value Python takes as true), \<open>execute_action\<close> is not called during the turn and
  the turn ends in \<open>WAITING_FOR_INPUT\<close>; when the Reasoner was asked, what the turn
  returns is the plan's \<open>response\<close> without a screenshot (or the \<open>KeyError\<close> of a plan
  that has none).
\<close>

theorem missing_info_skips_execution:
  assumes turn: "process_user_input env u ag x = (res, ag', x', evs)"
    and plan: "analyze_intent env u (conversation_history ag @ [user_turn u]) x
                 = (Inr plan, x1, ev1)"
    and req: "py_get plan ''requires_info'' = Inr req" "truthy req"
  shows "execs evs = [] \<and> state ag' = WAITING_FOR_INPUT
         \<and> (posts evs \<noteq> [] \<longrightarrow>
              res = (case py_index plan ''response'' of
                       Inl e \<Rightarrow> Inl e | Inr resp \<Rightarrow> Inr (assistant resp None)))"
  using turn plan req by (rule needs_info_turn)

theorem missing_info_skips_execution_witness:
  "truthy (JArr [JStr ''email subject''])
   \<and> execs (events (process_user_input (demo_env info_reply (Some info_plan) (\<lambda>c. None))
                       ''open my inbox'' (fresh_agent None) ())) = []
   \<and> state (agent_after (process_user_input (demo_env info_reply (Some info_plan) (\<lambda>c. None))
                            ''open my inbox'' (fresh_agent None) ())) = WAITING_FOR_INPUT
   \<and> fst (process_user_input (demo_env info_reply (Some info_plan) (\<lambda>c. None))
             ''open my inbox'' (fresh_agent None) ())
       = Inr (assistant (JStr ''Which subject?'') None)"
proof -
  let ?E = "demo_env info_reply (Some info_plan) (\<lambda>c. None)"
  obtain res ag' x' evs where
    t: "process_user_input ?E ''open my inbox'' (fresh_agent None) () = (res, ag', x', evs)"
    by (metis prod_cases4)
  have "fst (analyze_intent ?E ''open my inbox''
          (conversation_history (fresh_agent None) @ [user_turn ''open my inbox'']) ())
        = Inr info_plan"
    by (simp add: analyze_intent_def generate_response_def demo_env_def)
  then obtain plan x1 ev1 where
    a: "analyze_intent ?E ''open my inbox''
          (conversation_history (fresh_agent None) @ [user_turn ''open my inbox'']) ()
        = (Inr plan, x1, ev1)" and p: "plan = info_plan"
    by (cases "analyze_intent ?E ''open my inbox''
          (conversation_history (fresh_agent None) @ [user_turn ''open my inbox'']) ()") auto
  have r: "py_get plan ''requires_info'' = Inr (JArr [JStr ''email subject''])"
    by (simp add: p info_plan_def)
  have asked: "posts (events (process_user_input ?E ''open my inbox'' (fresh_agent None) ()))
               \<noteq> []"
    by code_simp
  have resp: "py_index plan ''response'' = Inr (JStr ''Which subject?'')"
    by (simp add: p info_plan_def)
  show ?thesis
    using missing_info_skips_execution[OF t a r] asked resp t
    by (simp add: events_def agent_after_def)
qed

text \<open>
  C5.  The claim asks for the state \<open>ERROR\<close> at the end of a turn in which a step failed.
  The loop does set \<open>ERROR\<close> on the failure (line 461), but line 481 then sets \<open>IDLE\<close>
  on every path that returns the reply: every turn that returns a reply after a failed
  step ends in \<open>IDLE\<close>.
\<close>

theorem failed_step_state:
  assumes turn: "process_user_input env u ag x = (Inr m, ag', x', evs)"
    and failed: "(a, False, r) \<in> set (execs evs)"
  shows "state ag' = IDLE"
  using turn
proof (cases rule: process_user_inputE)
  case no_credentials
  then show ?thesis using failed by simp
next
  case no_details
  then show ?thesis using failed by simp
next
  case (planned ag2)
  from planned(1) show ?thesis
  proof (cases rule: plan_and_actE)
    case (analysis_raised e ev1)
    then show ?thesis by simp
  next
    case (not_dict plan ev1 e)
    then show ?thesis by simp
  next
    case (needs_info plan ev1 req)
    then show ?thesis using failed analyze_intent_trace[OF needs_info(1)] by simp
  next
    case (acted plan x1 ev1 req ev2)
    then show ?thesis using act_result[OF acted(4)] by simp
  qed
qed

theorem failed_step_state_witness:
  "fst (process_user_input (demo_env fly_reply (Some fly_plan) (\<lambda>c. None))
          ''fly me to the moon'' (fresh_agent None) ())
     = Inr (assistant (JStr (''Taking off.'' @ fail_line ''Unknown action type: fly''))
              (Some ''iVBORw0KGgo=''))
   \<and> execs (events (process_user_input (demo_env fly_reply (Some fly_plan) (\<lambda>c. None))
                       ''fly me to the moon'' (fresh_agent None) ()))
       = [(fly_action, False, ''Unknown action type: fly'')]
   \<and> state (agent_after (process_user_input (demo_env fly_reply (Some fly_plan) (\<lambda>c. None))
                            ''fly me to the moon'' (fresh_agent None) ())) = IDLE"
proof -
  let ?T = "process_user_input (demo_env fly_reply (Some fly_plan) (\<lambda>c. None))
              ''fly me to the moon'' (fresh_agent None) ()"
  have r: "fst ?T = Inr (assistant (JStr (''Taking off.'' @ fail_line ''Unknown action type: fly''))
                           (Some ''iVBORw0KGgo=''))"
    by code_simp
  have e: "execs (events ?T) = [(fly_action, False, ''Unknown action type: fly'')]"
    by code_simp
  obtain res ag' x' evs where t: "?T = (res, ag', x', evs)"
    by (metis prod_cases4)
  from t r have t': "?T = (Inr (assistant (JStr (''Taking off.''
                       @ fail_line ''Unknown action type: fly'')) (Some ''iVBORw0KGgo='')),
                     ag', x', evs)"
    by simp
  from t e have "(fly_action, False, ''Unknown action type: fly'') \<in> set (execs evs)"
    by (simp add: events_def)
  from failed_step_state[OF t' this] show ?thesis
    using r e t by (simp add: agent_after_def)
qed

text \<open>
  C9, as the code has it.  The claim says the context holds the last five turns before
  the current one, the current utterance not being among them.  The utterance is
  appended to the history (line 372) before \<open>analyze_intent\<close> takes the last five
  entries (line 162), so with five earlier entries the context is the last four of them
  followed by the current utterance, which is also passed in \<open>User request: ...\<close>.
\<close>

theorem context_holds_utterance_counterexample:
  "conversation_history ((fresh_agent None)\<lparr>conversation_history := five_turns\<rparr>)
     = [\<lparr>role = ''user'', content = JStr ''one''\<rparr>,
        \<lparr>role = ''assistant'', content = JStr ''two''\<rparr>,
        \<lparr>role = ''user'', content = JStr ''three''\<rparr>,
        \<lparr>role = ''assistant'', content = JStr ''four''\<rparr>,
        \<lparr>role = ''user'', content = JStr ''five''\<rparr>]
   \<and> posts (events (process_user_input (demo_env ''Hello!'' None (\<lambda>c. None)) ''hello''
                      ((fresh_agent None)\<lparr>conversation_history := five_turns\<rparr>) ()))
       = [[\<lparr>role = ''system'', content = JStr ''You are an AI browser automation agent.''\<rparr>,
           \<lparr>role = ''user'', content = JStr ''User request: hello''\<rparr>,
           \<lparr>role = ''assistant'', content = JStr ''two''\<rparr>,
           \<lparr>role = ''user'', content = JStr ''three''\<rparr>,
           \<lparr>role = ''assistant'', content = JStr ''four''\<rparr>,
           \<lparr>role = ''user'', content = JStr ''five''\<rparr>,
           \<lparr>role = ''user'', content = JStr ''hello''\<rparr>]]"
  by code_simp

text \<open>
  C9, amended.  In every turn, nothing is sent to the Reasoner or exactly one request
  is, whose messages are the system prompt, \<open>User request: <utterance>\<close>, and the last
  five entries of the history as it stands at the call: the last four entries from before
  the turn followed by the current utterance.  The history itself keeps every earlier
  entry.
\<close>

theorem reasoner_context:
  assumes turn: "process_user_input env u ag x = (res, ag', x', evs)"
  shows "(posts evs = [] \<or>
          posts evs = [[\<lparr>role = ''system'', content = JStr (system_prompt env)\<rparr>,
                        \<lparr>role = ''user'', content = JStr (''User request: '' @ u)\<rparr>]
                       @ drop (length (conversation_history ag) - 4) (conversation_history ag)
                       @ [user_turn u]])
         \<and> (\<exists>rest. conversation_history ag' = conversation_history ag @ user_turn u # rest)"
  using turn_trace[OF turn] turn_history[OF turn]
  by (auto simp: build_messages_def user_turn_last5)

theorem reasoner_context_witness:
  "posts (events (process_user_input (demo_env ''Hello!'' None (\<lambda>c. None)) ''hello''
                    ((fresh_agent None)\<lparr>conversation_history := five_turns\<rparr>) ()))
     = [[\<lparr>role = ''system'', content = JStr ''You are an AI browser automation agent.''\<rparr>,
         \<lparr>role = ''user'', content = JStr ''User request: hello''\<rparr>]
        @ drop 1 five_turns @ [user_turn ''hello'']]
   \<and> (\<exists>rest. conversation_history
                (agent_after (process_user_input (demo_env ''Hello!'' None (\<lambda>c. None)) ''hello''
                    ((fresh_agent None)\<lparr>conversation_history := five_turns\<rparr>) ()))
              = five_turns @ user_turn ''hello'' # rest)"
proof -
  let ?T = "process_user_input (demo_env ''Hello!'' None (\<lambda>c. None)) ''hello''
              ((fresh_agent None)\<lparr>conversation_history := five_turns\<rparr>) ()"
  obtain res ag' x' evs where t: "?T = (res, ag', x', evs)"
    by (metis prod_cases4)
  have asked: "posts (events ?T) \<noteq> []" by code_simp
  have len: "length five_turns - 4 = 1" by (simp add: five_turns_def)
  show ?thesis
    using reasoner_context[OF t] asked t len
    by (simp add: events_def agent_after_def demo_env_def)
qed



lemma map_of_without:
  "k' \<noteq> k \<Longrightarrow> map_of (filter (\<lambda>kv. fst kv \<noteq> k) kvs) k' = map_of kvs k'"
  by (induction kvs) auto

text \<open>
  C10.  The step built from an action of the payload is the same whether or not the
  payload has a \<open>delay\<close> entry: the field is not read and the step keeps the default
  \<open>delay = 1.0\<close>.  So in every turn each step is executed with \<open>delay = 1\<close>, each
  \<open>wait\<close> step suspends through \<open>wait_for_timeout(1000)\<close>, and each pause after a step is
  \<open>asyncio.sleep(1.0)\<close>.
\<close>

theorem delay_is_default:
  assumes turn: "process_user_input env u ag x = (res, ag', x', evs)"
  shows "make_action (JObj kvs) = make_action (JObj (filter (\<lambda>kv. fst kv \<noteq> ''delay'') kvs))
         \<and> (\<forall>e\<in>set evs. paced e)"
proof -
  have "make_action (JObj kvs) = make_action (JObj (filter (\<lambda>kv. fst kv \<noteq> ''delay'') kvs))"
    by (simp add: make_action_def get_or_empty_def map_of_without split: option.splits)
  then show ?thesis using turn_paced[OF turn] by blast
qed

theorem delay_is_default_witness:
  "map_of [(''action_type'', JStr ''wait''), (''delay'', JFloat 2)] ''delay'' = Some (JFloat 2)
   \<and> make_action (JObj [(''action_type'', JStr ''wait''), (''delay'', JFloat 2)])
       = make_action (JObj [(''action_type'', JStr ''wait'')])
   \<and> events (process_user_input (demo_env wait_reply (Some wait_plan) (\<lambda>c. None))
                ''wait a bit'' (fresh_agent None) ())
       = [Post (build_messages (demo_env wait_reply (Some wait_plan) (\<lambda>c. None)) ''wait a bit''
                  [user_turn ''wait a bit'']),
          BCall (WaitForTimeout 1000),
          Exec wait_step True ''Waited for 1.0 seconds'',
          Sleep 1, Screenshot]
   \<and> list_all paced (events (process_user_input (demo_env wait_reply (Some wait_plan) (\<lambda>c. None))
                ''wait a bit'' (fresh_agent None) ()))"
proof -
  let ?T = "process_user_input (demo_env wait_reply (Some wait_plan) (\<lambda>c. None))
              ''wait a bit'' (fresh_agent None) ()"
  obtain res ag' x' evs where t: "?T = (res, ag', x', evs)"
    by (metis prod_cases4)
  have ev: "events ?T
       = [Post (build_messages (demo_env wait_reply (Some wait_plan) (\<lambda>c. None)) ''wait a bit''
                  [user_turn ''wait a bit'']),
          BCall (WaitForTimeout 1000),
          Exec wait_step True ''Waited for 1.0 seconds'',
          Sleep 1, Screenshot]"
    by code_simp
  from delay_is_default[OF t, of "[(''action_type'', JStr ''wait''), (''delay'', JFloat 2)]"]
  show ?thesis using ev t by (simp add: events_def list_all_iff)
qed

lemma loads_error_propagates:
  assumes "fst (generate_response env (build_messages env u h) x) = JStr s"
    and "json_loads env s = LoadsRaised e"
  shows "fst (analyze_intent env u h x) = Inl e"
  using assms by (auto simp: analyze_intent_def split: prod.splits)

lemma null_content_propagates:
  assumes "fst (generate_response env (build_messages env u h) x) = JNull"
  shows "fst (analyze_intent env u h x) = Inl TypeError"
  using assms by (auto simp: analyze_intent_def split: prod.splits)

text \<open>
  C4, as the code has it.  The claim says a payload with a step of unrecognized kind is
  replaced by the fallback plan when it is parsed.  \<open>analyze_intent\<close> returns whatever
  \<open>json.loads\<close> accepts: a plan whose only step has the kind \<open>fly\<close> comes back as it is,
  the step reaches \<open>execute_action\<close>, and is rejected there (lines 312-313).
\<close>

theorem unknown_kind_not_rejected_counterexample:
  "fst (analyze_intent (demo_env fly_reply (Some fly_plan) (\<lambda>c. None)) ''fly me to the moon''
          [user_turn ''fly me to the moon''] ()) = Inr fly_plan
   \<and> fly_plan \<noteq> fallback_plan
   \<and> execs (events (process_user_input (demo_env fly_reply (Some fly_plan) (\<lambda>c. None))
                       ''fly me to the moon'' (fresh_agent None) ()))
       = [(fly_action, False, ''Unknown action type: fly'')]"
  by code_simp

text \<open>
  C4, amended.  When the Reasoner's text makes \<open>json.loads\<close> raise \<open>JSONDecodeError\<close>,
  \<open>analyze_intent\<close> returns the fallback plan (an empty list of actions, \<open>requires_info\<close>
  holding \<open>Please clarify your request with more details.\<close>) and raises nothing, and a
  turn that asked the Reasoner and got such a text returns the generic clarification
  \<open>I'm sorry, I didn't understand your request. Could you provide more details?\<close>, ends
  in \<open>WAITING_FOR_INPUT\<close> and executes no step.  A text \<open>json.loads\<close> reads is returned as
  read, unchecked.  A step whose kind is none of the nine is rejected when it is executed:
  \<open>execute_action\<close> returns \<open>False\<close> with \<open>Unknown action type: <kind>\<close>, without a page
  call.
\<close>

theorem parse_or_fallback:
  shows "(fst (generate_response env (build_messages env u h) x) = JStr s
            \<and> json_loads env s = JSONDecodeError
          \<longrightarrow> fst (analyze_intent env u h x)
                = Inr (JObj
                    [(''intent'', JStr ''unclear request''),
                     (''actions'', JArr []),
                     (''requires_info'',
                      JArr [JStr ''Please clarify your request with more details.'']),
                     (''response'', JStr
                       ''I'm sorry, I didn't understand your request. Could you provide more details?'')]))
         \<and> (fst (generate_response env (build_messages env u h) x) = JStr s
              \<and> json_loads env s = Loaded v
            \<longrightarrow> fst (analyze_intent env u h x) = Inr v)
         \<and> (process_user_input env u ag x = (res, ag', x', evs) \<and> posts evs \<noteq> []
              \<and> fst (generate_response env
                   (build_messages env u (conversation_history ag @ [user_turn u])) x) = JStr s'
              \<and> json_loads env s' = JSONDecodeError
            \<longrightarrow> res = Inr \<lparr>cm_role = ''assistant'',
                             cm_content = JStr
                  ''I'm sorry, I didn't understand your request. Could you provide more details?'',
                             cm_screenshot = None\<rparr>
                \<and> state ag' = WAITING_FOR_INPUT \<and> execs evs = [])
         \<and> (page_present ag \<and> action_type a \<notin> set known_kinds \<longrightarrow>
              execute_action env a ag x
                = ((False, ''Unknown action type: '' @ py_str env (action_type a)), ag, x,
                   [Exec a False (''Unknown action type: '' @ py_str env (action_type a))]))"
proof -
  have bad: "fst (analyze_intent env u h x) = Inr fallback_plan"
    if "fst (generate_response env (build_messages env u h) x) = JStr s"
      "json_loads env s = JSONDecodeError" for h s
    using that by (auto simp: analyze_intent_def split: prod.splits)
  have good: "fst (analyze_intent env u h x) = Inr v"
    if "fst (generate_response env (build_messages env u h) x) = JStr s"
      "json_loads env s = Loaded v"
    using that by (auto simp: analyze_intent_def split: prod.splits)
  have unknown: "execute_action env a ag x
                = ((False, ''Unknown action type: '' @ py_str env (action_type a)), ag, x,
                   [Exec a False (''Unknown action type: '' @ py_str env (action_type a))])"
    if "page_present ag" "action_type a \<notin> set known_kinds"
    using that
    by (simp add: known_kinds_def execute_action_def execute_action_run_def
          execute_action_try_def)
  have turn: "res = Inr \<lparr>cm_role = ''assistant'',
                             cm_content = JStr
                  ''I'm sorry, I didn't understand your request. Could you provide more details?'',
                             cm_screenshot = None\<rparr>
                \<and> state ag' = WAITING_FOR_INPUT \<and> execs evs = []"
    if t: "process_user_input env u ag x = (res, ag', x', evs)" and asked: "posts evs \<noteq> []"
      and g: "fst (generate_response env
                   (build_messages env u (conversation_history ag @ [user_turn u])) x) = JStr s'"
      and l: "json_loads env s' = JSONDecodeError"
  proof -
    from bad[OF g l] obtain x1 ev1 where
      a: "analyze_intent env u (conversation_history ag @ [user_turn u]) x
            = (Inr fallback_plan, x1, ev1)"
      by (cases "analyze_intent env u (conversation_history ag @ [user_turn u]) x") auto
    have r: "py_get fallback_plan ''requires_info''
               = Inr (JArr [JStr ''Please clarify your request with more details.''])"
      by (simp add: fallback_plan_def)
    from needs_info_turn[OF t a r] asked show ?thesis
      by (simp add: fallback_plan_def assistant_def)
  qed
  show ?thesis
    using bad[of h s] good unknown turn by (simp add: fallback_plan_def)
qed

theorem parse_or_fallback_witness:
  "json_loads (demo_env ''Sure, I will do that.'' None (\<lambda>c. None)) ''Sure, I will do that.''
     = JSONDecodeError
   \<and> fst (analyze_intent (demo_env ''Sure, I will do that.'' None (\<lambda>c. None)) ''hello''
            [user_turn ''hello''] ()) = Inr fallback_plan
   \<and> json_loads (demo_env fly_reply (Some fly_plan) (\<lambda>c. None)) fly_reply = Loaded fly_plan
   \<and> fst (analyze_intent (demo_env fly_reply (Some fly_plan) (\<lambda>c. None)) ''hello''
            [user_turn ''hello''] ()) = Inr fly_plan
   \<and> posts (events (process_user_input (demo_env ''Sure, I will do that.'' None (\<lambda>c. None))
                      ''hello'' (fresh_agent None) ()))
       = [build_messages (demo_env ''Sure, I will do that.'' None (\<lambda>c. None)) ''hello''
            [user_turn ''hello'']]
   \<and> fst (process_user_input (demo_env ''Sure, I will do that.'' None (\<lambda>c. None)) ''hello''
            (fresh_agent None) ())
       = Inr \<lparr>cm_role = ''assistant'',
              cm_content = JStr
                ''I'm sorry, I didn't understand your request. Could you provide more details?'',
              cm_screenshot = None\<rparr>
   \<and> state (agent_after (process_user_input
               (demo_env ''Sure, I will do that.'' None (\<lambda>c. None)) ''hello''
               (fresh_agent None) ())) = WAITING_FOR_INPUT
   \<and> execs (events (process_user_input (demo_env ''Sure, I will do that.'' None (\<lambda>c. None))
                      ''hello'' (fresh_agent None) ())) = []
   \<and> page_present (fresh_agent None) \<and> action_type fly_action \<notin> set known_kinds
   \<and> execute_action (demo_env ''Sure, I will do that.'' None (\<lambda>c. None)) fly_action
        (fresh_agent None) ()
       = ((False, ''Unknown action type: fly''), fresh_agent None, (),
          [Exec fly_action False ''Unknown action type: fly''])"
proof -
  let ?E = "demo_env ''Sure, I will do that.'' None (\<lambda>c. None)"
  let ?F = "demo_env fly_reply (Some fly_plan) (\<lambda>c. None)"
  obtain res ag' x' evs where
    t: "process_user_input ?E ''hello'' (fresh_agent None) () = (res, ag', x', evs)"
    by (metis prod_cases4)
  have ps: "posts (events (process_user_input ?E ''hello'' (fresh_agent None) ()))
              = [build_messages ?E ''hello'' [user_turn ''hello'']]"
    by code_simp
  then have asked: "posts evs \<noteq> []" unfolding t by (simp add: events_def)
  have h: "conversation_history (fresh_agent None) = []" by (simp add: fresh_agent_def)
  have g: "fst (generate_response ?E (build_messages ?E ''hello'' [user_turn ''hello'']) ())
             = JStr ''Sure, I will do that.''"
    by (simp add: generate_response_def demo_env_def)
  have l: "json_loads ?E ''Sure, I will do that.'' = JSONDecodeError" by (simp add: demo_env_def)
  have g2: "fst (generate_response ?F (build_messages ?F ''hello'' [user_turn ''hello'']) ())
             = JStr fly_reply"
    by (simp add: generate_response_def demo_env_def)
  have l2: "json_loads ?F fly_reply = Loaded fly_plan" by (simp add: demo_env_def)
  have p: "page_present (fresh_agent None)" by (simp add: fresh_agent_def)
  have k: "action_type fly_action \<notin> set known_kinds"
    by (simp add: fly_action_def known_kinds_def)
  have s: "py_str ?E (action_type fly_action) = ''fly''"
    by (simp add: py_str_def fly_action_def)
  note a = parse_or_fallback[of ?E "''hello''" "[user_turn ''hello'']" "()"
            "''Sure, I will do that.''" fly_plan "fresh_agent None" res ag' x' evs
            "''Sure, I will do that.''" fly_action]
  note b = parse_or_fallback[of ?F "''hello''" "[user_turn ''hello'']" "()" fly_reply fly_plan]
  have 1: "fst (analyze_intent ?E ''hello'' [user_turn ''hello''] ()) = Inr fallback_plan"
    using a g l by (simp add: fallback_plan_def)
  have 2: "fst (analyze_intent ?F ''hello'' [user_turn ''hello''] ()) = Inr fly_plan"
    using b g2 l2 by simp
  have 3: "execute_action ?E fly_action (fresh_agent None) ()
       = ((False, ''Unknown action type: fly''), fresh_agent None, (),
          [Exec fly_action False ''Unknown action type: fly''])"
    using a p k s by simp
  have 4: "res = Inr \<lparr>cm_role = ''assistant'',
              cm_content = JStr
                ''I'm sorry, I didn't understand your request. Could you provide more details?'',
              cm_screenshot = None\<rparr>
           \<and> state ag' = WAITING_FOR_INPUT \<and> execs evs = []"
    using a t asked h g l by simp
  show ?thesis using 1 2 3 4 l l2 p k ps unfolding t by (simp add: events_def agent_after_def)
qed

text \<open>
  C7, as the code has it.  The claim says that once a password is stored, substitution
  gives every step aimed at the password field that password as its text.  The override
  of lines 436-447 is guarded by line 437: it is applied only when the utterance of the
  turn contains \<open>send email\<close>.  With the password stored and the utterance
  \<open>log in to my gmail account\<close>, the step keeps the placeholder the Reasoner wrote.
\<close>

theorem substitution_is_gated_counterexample:
  \<open>map_of stored_vault ''password'' = Some ''hunter2''
   \<and> target pw_step = JStr ''input[type='password']''
   \<and> substitute ''log in to my gmail account''
        \<lparr>email_credentials = Some stored_vault, email_details = None\<rparr> pw_step = Inr pw_step
   \<and> action_text pw_step = JStr ''PASSWORD''\<close>
  by code_simp

text \<open>
  C7, amended.  For a step whose target is the password locator: in a turn whose
  utterance contains \<open>send email\<close>, with credentials stored that hold \<open>V\<close> under
  \<open>password\<close>, substitution gives the step with its text set to \<open>V\<close> and nothing else
  changed; when no credentials are stored, and when the utterance does not contain
  \<open>send email\<close>, substitution gives the step unchanged.
\<close>

theorem password_substitution:
  assumes \<open>target a = JStr ''input[type='password']''\<close>
  shows "(mentions_send_email u \<and> email_credentials tc = Some creds
            \<and> map_of creds ''password'' = Some V
          \<longrightarrow> substitute u tc a = Inr (a\<lparr>action_text := JStr V\<rparr>))
         \<and> (\<not> has_credentials tc \<longrightarrow> substitute u tc a = Inr a)
         \<and> (\<not> mentions_send_email u \<longrightarrow> substitute u tc a = Inr a)"
  using assms
  by (auto simp: substitute_def has_credentials_def set_text_def sget_def split: option.splits)

theorem password_substitution_witness:
  \<open>target pw_step = JStr ''input[type='password']''
   \<and> mentions_send_email ''send email to a@b.com''
   \<and> map_of stored_vault ''password'' = Some ''hunter2''
   \<and> substitute ''send email to a@b.com''
        \<lparr>email_credentials = Some stored_vault, email_details = None\<rparr> pw_step
       = Inr (pw_step\<lparr>action_text := JStr ''hunter2''\<rparr>)
   \<and> \<not> has_credentials \<lparr>email_credentials = None, email_details = None\<rparr>
   \<and> substitute ''send email to a@b.com''
        \<lparr>email_credentials = None, email_details = None\<rparr> pw_step = Inr pw_step
   \<and> \<not> mentions_send_email ''log in to my gmail account''
   \<and> substitute ''log in to my gmail account''
        \<lparr>email_credentials = Some stored_vault, email_details = None\<rparr> pw_step = Inr pw_step\<close>
proof -
  have t: \<open>target pw_step = JStr ''input[type='password']''\<close> by (simp add: pw_step_def)
  have m: "mentions_send_email ''send email to a@b.com''" by code_simp
  have n: "\<not> mentions_send_email ''log in to my gmail account''" by code_simp
  have v: "map_of stored_vault ''password'' = Some ''hunter2''" by (simp add: stored_vault_def)
  have h: "\<not> has_credentials \<lparr>email_credentials = None, email_details = None\<rparr>"
    by (simp add: has_credentials_def)
  show ?thesis
    using password_substitution[OF t, of "''send email to a@b.com''"
            "\<lparr>email_credentials = Some stored_vault, email_details = None\<rparr>" stored_vault
            "''hunter2''"]
      password_substitution[OF t, of "''send email to a@b.com''"
            "\<lparr>email_credentials = None, email_details = None\<rparr>"]
      password_substitution[OF t, of "''log in to my gmail account''"
            "\<lparr>email_credentials = Some stored_vault, email_details = None\<rparr>"]
      t m n v h
    by simp
qed

text \<open>
  C2.  When the call of \<open>execute_action\<close> for step \<open>k\<close> of a turn (counting from 0)
  returns failure, it is the last call of the turn: exactly the steps \<open>0..k\<close> of the
  plan were executed, in order, each as built and overridden from the payload, and every
  one before \<open>k\<close> succeeded.  The reply of the turn is the plan's response, one success
  line for each step before \<open>k\<close>, one failure line (the mark followed by \<open>Failed:\<close>
  and the explanation of step \<open>k\<close>), and the extracted data if any: the loop adds the
  failure mark once, and where the texts of the Reasoner and of the page carry no such mark
  of their own, the mark occurs in the reply exactly once.
\<close>

theorem fail_fast_turn:
  assumes turn: "process_user_input env u ag x = (res, ag', x', evs)"
    and k: "k < length (execs evs)" and failed: "\<not> fst (snd (execs evs ! k))"
  shows "length (execs evs) = Suc k
         \<and> (\<forall>j<k. fst (snd (execs evs ! j)))
         \<and> (\<forall>actions. py_get (plan_of env u ag x) ''actions'' = Inr actions \<longrightarrow>
               map (Inr \<circ> fst) (execs evs)
                 = map (prepare_action u (turn_context env u (task_ctx ag)))
                     (take (Suc k) (steps_of actions)))
         \<and> (\<forall>m r0. res = Inr m \<and> py_index (plan_of env u ag x) ''response'' = Inr (JStr r0) \<longrightarrow>
               cm_content m
                 = JStr (r0 @ concat (map (ok_line_of env) (take k (execs evs)))
                            @ fail_line (snd (snd (execs evs ! k)))
                            @ extracted_suffix (extracted_of (take k (execs evs))))
               \<and> (marker_free r0
                    \<and> (\<forall>e\<in>set (execs evs). marker_free (py_str env (description (fst e)))
                                               \<and> marker_free (snd (snd e)))
                  \<longrightarrow> (\<exists>s. cm_content m = JStr s \<and> count_sub cross s = 1)))"
proof -
  note tr = turn_trace[OF turn]
  from tr have ff: "fail_fast (execs evs)" by simp
  note last = fail_fast_last[OF ff k failed]
  from last have len: "length (execs evs) = Suc k" and oks: "\<forall>j<k. fst (snd (execs evs ! j))"
    by simp_all
  from k tr have asked: "posts evs \<noteq> []" by auto
  note ls = lines_until_failure[OF len oks failed]
  have steps: "map (Inr \<circ> fst) (execs evs)
                 = map (prepare_action u (turn_context env u (task_ctx ag)))
                     (take (Suc k) (steps_of actions))"
    if "py_get (plan_of env u ag x) ''actions'' = Inr actions" for actions
    using turn_prefix[OF turn that] len by simp
  have reply: "cm_content m
                 = JStr (r0 @ concat (map (ok_line_of env) (take k (execs evs)))
                            @ fail_line (snd (snd (execs evs ! k)))
                            @ extracted_suffix (extracted_of (take k (execs evs))))"
    if "res = Inr m" "py_index (plan_of env u ag x) ''response'' = Inr (JStr r0)" for m r0
    using turn_content[OF turn[unfolded that(1)] asked that(2)] ls by simp
  have once: "count_sub cross (r0 @ concat (map (ok_line_of env) (take k (execs evs)))
                            @ fail_line (snd (snd (execs evs ! k)))
                            @ extracted_suffix (extracted_of (take k (execs evs)))) = 1"
    if c0: "marker_free r0"
      and c: "\<forall>e\<in>set (execs evs). marker_free (py_str env (description (fst e)))
                                   \<and> marker_free (snd (snd e))" for r0
  proof (rule count_failed_reply[OF c0])
    show "\<forall>e\<in>set (take k (execs evs)).
            marker_free (py_str env (description (fst e))) \<and> marker_free (snd (snd e))"
      using c by (auto dest: in_set_takeD)
    show "marker_free (snd (snd (execs evs ! k)))"
      using c k by simp
    show "\<forall>s\<in>set (extracted_of (take k (execs evs))). marker_free s"
      using c extracted_of_results[of "take k (execs evs)"] by (auto dest: in_set_takeD)
  qed
  show ?thesis using len oks steps reply once by blast
qed

theorem fail_fast_turn_witness:
  "length (steps_of (JArr [JObj [(''action_type'', JStr ''navigate'')],
                           JObj [(''action_type'', JStr ''click'')],
                           JObj [(''action_type'', JStr ''extract'')]])) = 3
   \<and> execs (events (process_user_input (demo_env click_reply (Some click_plan) go_times_out)
                      ''open example.com and press go'' (fresh_agent None) ()))
       = [(navigate_step, True, ''Navigated to https://example.com''),
          (click_step, False,
           ''Action failed: Timeout 10000ms exceeded. Page reloaded for retry.'')]
   \<and> fst (process_user_input (demo_env click_reply (Some click_plan) go_times_out)
             ''open example.com and press go'' (fresh_agent None) ())
       = Inr (assistant
               (JStr (''On it.''
                      @ ok_line (demo_env click_reply (Some click_plan) go_times_out)
                          navigate_step ''Navigated to https://example.com''
                      @ fail_line
                          ''Action failed: Timeout 10000ms exceeded. Page reloaded for retry.''))
               (Some ''iVBORw0KGgo=''))
   \<and> count_sub cross
         (''On it.''
          @ ok_line (demo_env click_reply (Some click_plan) go_times_out)
              navigate_step ''Navigated to https://example.com''
          @ fail_line ''Action failed: Timeout 10000ms exceeded. Page reloaded for retry.'') = 1"
proof -
  let ?E = "demo_env click_reply (Some click_plan) go_times_out"
  let ?T = "process_user_input ?E ''open example.com and press go'' (fresh_agent None) ()"
  let ?reply = "''On it.'' @ ok_line ?E navigate_step ''Navigated to https://example.com''
                @ fail_line ''Action failed: Timeout 10000ms exceeded. Page reloaded for retry.''"
  have e: "execs (events ?T)
       = [(navigate_step, True, ''Navigated to https://example.com''),
          (click_step, False,
           ''Action failed: Timeout 10000ms exceeded. Page reloaded for retry.'')]"
    by code_simp
  have r: "fst ?T = Inr (assistant (JStr ?reply) (Some ''iVBORw0KGgo=''))"
    by code_simp
  obtain res ag' x' evs where t: "?T = (res, ag', x', evs)"
    by (metis prod_cases4)
  from t e have ex: "execs evs
       = [(navigate_step, True, ''Navigated to https://example.com''),
          (click_step, False,
           ''Action failed: Timeout 10000ms exceeded. Page reloaded for retry.'')]"
    by (simp add: events_def)
  from t r have res: "res = Inr (assistant (JStr ?reply) (Some ''iVBORw0KGgo=''))" by simp
  have k: "1 < length (execs evs)" and failed: "\<not> fst (snd (execs evs ! 1))"
    by (simp_all add: ex)
  have plan: "plan_of ?E ''open example.com and press go'' (fresh_agent None) () = click_plan"
    by (simp add: plan_of_def analyze_intent_def generate_response_def demo_env_def)
  have resp: "py_index (plan_of ?E ''open example.com and press go'' (fresh_agent None) ())
                ''response'' = Inr (JStr ''On it.'')"
    unfolding plan by (simp add: click_plan_def)
  have c0: "marker_free ''On it.''" by code_simp
  have c1: "marker_free (py_str ?E (description navigate_step))
            \<and> marker_free ''Navigated to https://example.com''
            \<and> marker_free (py_str ?E (description click_step))
            \<and> marker_free ''Action failed: Timeout 10000ms exceeded. Page reloaded for retry.''"
    by code_simp
  have c: "\<forall>e\<in>set (execs evs). marker_free (py_str ?E (description (fst e)))
                                 \<and> marker_free (snd (snd e))"
    using c1 by (simp add: ex)
  from fail_fast_turn[OF t k failed] res resp c0 c
  have "\<exists>s. cm_content (assistant (JStr ?reply) (Some ''iVBORw0KGgo='')) = JStr s
            \<and> count_sub cross s = 1"
    by blast
  then have "count_sub cross ?reply = 1" by (simp add: assistant_def)
  then show ?thesis using e r by (simp add: steps_of_def)
qed

text \<open>
  C1, as the code has it.  The claim says no stored credential reaches the history or a
  payload sent to the Reasoner.  The result of a successful \<open>type\<close> step quotes the text
  typed (line 279), the loop adds that result to the reply (line 453), and the reply is
  appended to the history (lines 476-479), of which the next call of \<open>analyze_intent\<close>
  sends the last five entries (line 162).  With the password \<open>hunter2\<close> stored, a turn
  whose plan types into the password field leaves \<open>Typed 'hunter2' into ...\<close> in the
  history, and the request of the following turn carries it.
\<close>

theorem secret_reaches_reasoner_counterexample:
  "map_of stored_vault ''password'' = Some ''hunter2''
   \<and> conversation_history (agent_after first_turn)
       = [user_turn email_utterance,
          \<lparr>role = ''assistant'',
           content = JStr (''Signing in.''
                           @ ok_line leak_env (pw_step\<lparr>action_text := JStr ''hunter2''\<rparr>)
                               typed_secret)\<rparr>]
   \<and> holds ''hunter2'' (last (conversation_history (agent_after first_turn)))
   \<and> posts (events second_turn)
       = [[\<lparr>role = ''system'', content = JStr ''You are an AI browser automation agent.''\<rparr>,
           \<lparr>role = ''user'', content = JStr ''User request: continue''\<rparr>,
           user_turn email_utterance,
           \<lparr>role = ''assistant'',
            content = JStr (''Signing in.''
                            @ ok_line leak_env (pw_step\<lparr>action_text := JStr ''hunter2''\<rparr>)
                                typed_secret)\<rparr>,
           user_turn ''continue'']]
   \<and> list_ex (holds ''hunter2'') (concat (posts (events second_turn)))"
  by code_simp

text \<open>
  C1, amended.  The request a turn sends to the Reasoner is the same whatever values the
  vault holds, as long as credentials are present or absent alike, and the history entry
  written for the user is the utterance.  When a turn asks the Reasoner, gets a plan
  without \<open>requires_info\<close> and returns a reply, the history after the turn is the history
  before it, the utterance, and an assistant entry whose content is that reply; every
  later turn of this agent that asks the Reasoner, starting from that history, sends this
  entry in its request.  When the plan's response is a string, the reply is the response,
  one line for each executed step with the text the step returned, and the extracted
  data.  A successful \<open>type\<close> step returns \<open>Typed '<text>' into <target>\<close> with the text
  it typed, so the assistant entry holds the text of every successful \<open>type\<close> step:
  a secret substituted into such a step is in the history and in the next request.
\<close>

theorem vault_and_reasoner:
  assumes turn: "process_user_input env u ag x = (res, ag', x', evs)"
  shows "(has_credentials tc = has_credentials (task_ctx ag) \<longrightarrow>
            posts (events (process_user_input env u (ag\<lparr>task_ctx := tc\<rparr>) x)) = posts evs)
         \<and> (\<exists>rest. conversation_history ag'
                      = conversation_history ag @ \<lparr>role = ''user'', content = JStr u\<rparr> # rest)
         \<and> (\<forall>m req. res = Inr m \<and> posts evs \<noteq> []
                \<and> py_get (plan_of env u ag x) ''requires_info'' = Inr req \<and> \<not> truthy req \<longrightarrow>
              conversation_history ag'
                = conversation_history ag
                  @ [\<lparr>role = ''user'', content = JStr u\<rparr>,
                     \<lparr>role = ''assistant'', content = cm_content m\<rparr>]
              \<and> (\<forall>u2 x2. posts (events (process_user_input env u2 ag' x2)) \<noteq> [] \<longrightarrow>
                    \<lparr>role = ''assistant'', content = cm_content m\<rparr>
                      \<in> set (concat (posts (events (process_user_input env u2 ag' x2)))))
              \<and> (\<forall>r0. py_index (plan_of env u ag x) ''response'' = Inr (JStr r0) \<longrightarrow>
                    cm_content m = JStr (r0 @ concat (map (line env) (execs evs))
                                           @ extracted_suffix (extracted_of (execs evs)))
                    \<and> (\<forall>e\<in>set (execs evs). \<forall>V.
                          fst (snd e) \<and> action_type (fst e) = JStr ''type''
                          \<and> action_text (fst e) = JStr V \<longrightarrow>
                          holds V \<lparr>role = ''assistant'', content = cm_content m\<rparr>)))
         \<and> (\<forall>e\<in>set (execs evs). fst (snd e) \<and> action_type (fst e) = JStr ''type'' \<longrightarrow>
               snd (snd e) = ''Typed '' @ quote @ py_str env (action_text (fst e)) @ quote
                             @ '' into '' @ py_str env (target (fst e)))"
proof -
  have p: "posts evs = posts (events (process_user_input env u ag x))"
    using turn by (simp add: events_def)
  have gate: "posts (events (process_user_input env u (ag\<lparr>task_ctx := tc\<rparr>) x)) = posts evs"
    if "has_credentials tc = has_credentials (task_ctx ag)"
    using that unfolding p turn_posts by (simp add: short_circuit_def)
  have user: "\<exists>rest. conversation_history ag'
                      = conversation_history ag @ \<lparr>role = ''user'', content = JStr u\<rparr> # rest"
    using turn_history[OF turn] by (simp add: user_turn_def)
  have typed: "snd (snd e) = ''Typed '' @ quote @ py_str env (action_text (fst e)) @ quote
                             @ '' into '' @ py_str env (target (fst e))"
    if e: "e \<in> set (execs evs)" and ok: "fst (snd e)" and ty: "action_type (fst e) = JStr ''type''"
    for e
  proof -
    from turn_genuine[OF turn] e obtain ag0 x0 where
      "fst (execute_action env (fst e) ag0 x0) = snd e" by blast
    with ok have "fst (execute_action env (fst e) ag0 x0) = (True, snd (snd e))"
      by (cases "snd e") simp
    from type_result[OF this ty] show ?thesis .
  qed
  have written: "conversation_history ag'
                = conversation_history ag
                  @ [\<lparr>role = ''user'', content = JStr u\<rparr>,
                     \<lparr>role = ''assistant'', content = cm_content m\<rparr>]
              \<and> (\<forall>u2 x2. posts (events (process_user_input env u2 ag' x2)) \<noteq> [] \<longrightarrow>
                    \<lparr>role = ''assistant'', content = cm_content m\<rparr>
                      \<in> set (concat (posts (events (process_user_input env u2 ag' x2)))))
              \<and> (\<forall>r0. py_index (plan_of env u ag x) ''response'' = Inr (JStr r0) \<longrightarrow>
                    cm_content m = JStr (r0 @ concat (map (line env) (execs evs))
                                           @ extracted_suffix (extracted_of (execs evs)))
                    \<and> (\<forall>e\<in>set (execs evs). \<forall>V.
                          fst (snd e) \<and> action_type (fst e) = JStr ''type''
                          \<and> action_text (fst e) = JStr V \<longrightarrow>
                          holds V \<lparr>role = ''assistant'', content = cm_content m\<rparr>))"
    if m: "res = Inr m" and asked: "posts evs \<noteq> []"
      and req: "py_get (plan_of env u ag x) ''requires_info'' = Inr req" "\<not> truthy req"
    for m req
  proof -
    note t = turn[unfolded m]
    have h: "conversation_history ag'
                = (conversation_history ag @ [\<lparr>role = ''user'', content = JStr u\<rparr>])
                  @ [\<lparr>role = ''assistant'', content = cm_content m\<rparr>]"
      using turn_appended[OF t asked req] by (simp add: user_turn_def)
    have nxt: "\<lparr>role = ''assistant'', content = cm_content m\<rparr>
                 \<in> set (concat (posts (events (process_user_input env u2 ag' x2))))"
      if "posts (events (process_user_input env u2 ag' x2)) \<noteq> []" for u2 x2
      using next_request[OF h that] .
    have content: "cm_content m = JStr (r0 @ concat (map (line env) (execs evs))
                                           @ extracted_suffix (extracted_of (execs evs)))
                    \<and> (\<forall>e\<in>set (execs evs). \<forall>V.
                          fst (snd e) \<and> action_type (fst e) = JStr ''type''
                          \<and> action_text (fst e) = JStr V \<longrightarrow>
                          holds V \<lparr>role = ''assistant'', content = cm_content m\<rparr>)"
      if r0: "py_index (plan_of env u ag x) ''response'' = Inr (JStr r0)" for r0
    proof -
      note c = turn_content[OF t asked r0]
      have "holds V \<lparr>role = ''assistant'', content = cm_content m\<rparr>"
        if e: "e \<in> set (execs evs)" and ok: "fst (snd e)"
          and ty: "action_type (fst e) = JStr ''type''" and v: "action_text (fst e) = JStr V"
        for e V
      proof -
        from typed[OF e ok ty] v
        have "snd (snd e) = ''Typed '' @ quote @ V
                            @ (quote @ '' into '' @ py_str env (target (fst e)))"
          by (simp add: py_str_def)
        from typed_text_held[OF e ok this]
        show ?thesis by (simp add: holds_def c)
      qed
      with c show ?thesis by blast
    qed
    from h have h': "conversation_history ag'
                = conversation_history ag
                  @ [\<lparr>role = ''user'', content = JStr u\<rparr>,
                     \<lparr>role = ''assistant'', content = cm_content m\<rparr>]"
      by simp
    from h' nxt content show ?thesis by blast
  qed
  show ?thesis using gate user written typed by blast
qed

theorem vault_and_reasoner_witness:
  \<open>has_credentials other_vault = has_credentials (task_ctx (fresh_agent (Some stored_vault)))
   \<and> posts (events (process_user_input leak_env email_utterance
                      ((fresh_agent (Some stored_vault))\<lparr>task_ctx := other_vault\<rparr>) ()))
       = posts (events first_turn)
   \<and> execs (events first_turn)
       = [(pw_step\<lparr>action_text := JStr ''hunter2''\<rparr>, True, typed_secret)]
   \<and> typed_secret
       = ''Typed '' @ quote @ ''hunter2'' @ quote @ '' into '' @ ''input[type='password']''
   \<and> conversation_history (agent_after first_turn)
       = [\<lparr>role = ''user'', content = JStr email_utterance\<rparr>,
          \<lparr>role = ''assistant'',
           content = JStr (''Signing in.''
                           @ ok_line leak_env (pw_step\<lparr>action_text := JStr ''hunter2''\<rparr>)
                               typed_secret)\<rparr>]
   \<and> holds ''hunter2''
         \<lparr>role = ''assistant'',
          content = JStr (''Signing in.''
                          @ ok_line leak_env (pw_step\<lparr>action_text := JStr ''hunter2''\<rparr>)
                              typed_secret)\<rparr>
   \<and> \<lparr>role = ''assistant'',
       content = JStr (''Signing in.''
                       @ ok_line leak_env (pw_step\<lparr>action_text := JStr ''hunter2''\<rparr>)
                           typed_secret)\<rparr>
       \<in> set (concat (posts (events second_turn)))\<close>
proof -
  let ?A = "fresh_agent (Some stored_vault)"
  let ?reply = "JStr (''Signing in.''
                      @ ok_line leak_env (pw_step\<lparr>action_text := JStr ''hunter2''\<rparr>)
                          typed_secret)"
  obtain res ag' x' evs where
    t: "process_user_input leak_env email_utterance ?A () = (res, ag', x', evs)"
    by (metis prod_cases4)
  then have ft: "first_turn = (res, ag', x', evs)" by (simp add: first_turn_def)
  have g: "has_credentials other_vault = has_credentials (task_ctx ?A)"
    by (simp add: has_credentials_def other_vault_def fresh_agent_def stored_vault_def)
  have e: "execs (events first_turn)
             = [(pw_step\<lparr>action_text := JStr ''hunter2''\<rparr>, True, typed_secret)]"
    by code_simp
  from e[unfolded ft]
  have ex: "execs evs = [(pw_step\<lparr>action_text := JStr ''hunter2''\<rparr>, True, typed_secret)]"
    by (simp add: events_def)
  have "fst first_turn = Inr (assistant ?reply (Some ''iVBORw0KGgo=''))" by code_simp
  then have res: "res = Inr (assistant ?reply (Some ''iVBORw0KGgo=''))"
    unfolding ft by simp
  have "posts (events first_turn) \<noteq> []" by code_simp
  then have asked: "posts evs \<noteq> []" unfolding ft by (simp add: events_def)
  have asked2: "posts (events second_turn) \<noteq> []" by code_simp
  have agent: "agent_after first_turn = ag'" unfolding ft by (simp add: agent_after_def)
  have plan: "plan_of leak_env email_utterance ?A () = pw_plan"
    by (simp add: plan_of_def analyze_intent_def generate_response_def demo_env_def
          leak_env_def)
  have req: "py_get (plan_of leak_env email_utterance ?A ()) ''requires_info'' = Inr (JArr [])"
    unfolding plan by (simp add: pw_plan_def)
  have resp: "py_index (plan_of leak_env email_utterance ?A ()) ''response''
                = Inr (JStr ''Signing in.'')"
    unfolding plan by (simp add: pw_plan_def)
  have h0: "conversation_history ?A = []" by (simp add: fresh_agent_def)
  note th = vault_and_reasoner[OF t, of other_vault]
  from th g have 1: "posts (events (process_user_input leak_env email_utterance
                      (?A\<lparr>task_ctx := other_vault\<rparr>) ()))
       = posts (events first_turn)"
    unfolding ft by (simp add: events_def)
  from th have "\<forall>e\<in>set (execs evs). fst (snd e) \<and> action_type (fst e) = JStr ''type'' \<longrightarrow>
               snd (snd e) = ''Typed '' @ quote @ py_str leak_env (action_text (fst e)) @ quote
                             @ '' into '' @ py_str leak_env (target (fst e))"
    by blast
  then have 2: \<open>typed_secret
       = ''Typed '' @ quote @ ''hunter2'' @ quote @ '' into '' @ ''input[type='password']''\<close>
    by (simp add: ex pw_step_def py_str_def)
  have falsy: "\<not> truthy (JArr [])" by simp
  note w = th[THEN conjunct2, THEN conjunct2, THEN conjunct1, rule_format,
              OF conjI[OF res conjI[OF asked conjI[OF req falsy]]]]
  have c: "cm_content (assistant ?reply (Some ''iVBORw0KGgo='')) = ?reply"
    by (simp add: assistant_def)
  from w[THEN conjunct1] have 3: "conversation_history (agent_after first_turn)
       = [\<lparr>role = ''user'', content = JStr email_utterance\<rparr>,
          \<lparr>role = ''assistant'', content = ?reply\<rparr>]"
    unfolding agent c h0 by simp
  from w[THEN conjunct2, THEN conjunct2, rule_format, OF resp, THEN conjunct2]
  have "\<forall>e\<in>set (execs evs). \<forall>V.
                          fst (snd e) \<and> action_type (fst e) = JStr ''type''
                          \<and> action_text (fst e) = JStr V \<longrightarrow>
                          holds V \<lparr>role = ''assistant'', content = ?reply\<rparr>"
    unfolding c .
  then have 4: "holds ''hunter2'' \<lparr>role = ''assistant'', content = ?reply\<rparr>"
    by (simp add: ex pw_step_def)
  have asked2': "posts (events (process_user_input leak_env ''continue'' ag' ())) \<noteq> []"
    using asked2 unfolding second_turn_def agent .
  from w[THEN conjunct2, THEN conjunct1, rule_format, OF asked2']
  have 5: "\<lparr>role = ''assistant'', content = ?reply\<rparr>
             \<in> set (concat (posts (events second_turn)))"
    unfolding c second_turn_def agent .
  show ?thesis using g 1 e 2 3 4 5 by blast
qed

end
